theory Spec2Isabelle
  imports Main "HOL-Library.Sublist"
begin

section \<open>Strings and lines\<close>

text \<open>
  Python strings are modelled as \<open>string\<close>, one \<open>char\<close> per code point below 256.
  \<open>startswith\<close> is \<open>str.startswith\<close> with the receiver first, \<open>join_str\<close> is
  \<open>sep.join(xs)\<close> and \<open>splitlines\<close> is \<open>str.splitlines()\<close>: a line ends at
  \<open>\n\<close>, \<open>\r\<close>, \<open>\r\n\<close>, \<open>\v\<close>, \<open>\f\<close>, \<open>\x1c\<close>, \<open>\x1d\<close>, \<open>\x1e\<close> or
  \<open>\x85\<close>, the line break is dropped, and a text that ends with a line break
  has no empty last line.
\<close>

definition startswith :: "string \<Rightarrow> string \<Rightarrow> bool" where
  "startswith line p = prefix p line"

fun join_str :: "string \<Rightarrow> string list \<Rightarrow> string" where
  "join_str sep [] = []"
| "join_str sep [x] = x"
| "join_str sep (x # y # ys) = x @ sep @ join_str sep (y # ys)"

definition is_linebreak :: "char \<Rightarrow> bool" where
  "is_linebreak c = (c \<in> set [CHR 0x0A, CHR 0x0D, CHR 0x0B, CHR 0x0C,
                               CHR 0x1C, CHR 0x1D, CHR 0x1E, CHR 0x85])"

fun splitlines_from :: "string \<Rightarrow> string \<Rightarrow> string list" where
  "splitlines_from cur [] = (if cur = [] then [] else [cur])"
| "splitlines_from cur (c # cs) =
     (if c = CHR 0x0D \<and> cs \<noteq> [] \<and> hd cs = CHR 0x0A then cur # splitlines_from [] (tl cs)
      else if is_linebreak c then cur # splitlines_from [] cs
      else splitlines_from (cur @ [c]) cs)"

definition splitlines :: "string \<Rightarrow> string list" where
  "splitlines content = splitlines_from [] content"

text \<open>
  A Python slice \<open>xs[:n]\<close> or \<open>xs[n:]\<close> with an integer bound: a negative bound counts
  from the end, and every bound is clamped to the list.
\<close>

definition slice_to :: "'a list \<Rightarrow> int \<Rightarrow> 'a list" where
  "slice_to xs n = (if n < 0 then take (nat (int (length xs) + n)) xs else take (nat n) xs)"

definition slice_from :: "'a list \<Rightarrow> int \<Rightarrow> 'a list" where
  "slice_from xs n = (if n < 0 then drop (nat (int (length xs) + n)) xs else drop (nat n) xs)"

section \<open>Data model\<close>

text \<open>
  The dataclass \<open>ConflictMarkers\<close>. Its field \<open>end\<close> is named \<open>end_idx\<close> here, after
  the parser's local variable that fills it. The two fields that default to \<open>None\<close> are
  options, as is \<open>resolved_with\<close>.
\<close>

record ConflictMarkers =
  start :: int
  middle :: int
  end_idx :: int
  base_content :: "string list"
  local_content :: "string list"
  remote_content :: "string list"
  conflict_id :: int
  is_resolved :: bool
  resolved_with :: "string option"
  original_start :: int
  original_end :: int
  resolved_lines :: "string list option"
  rejected_lines :: "string list option"

text \<open>The constructor call of the parser: the seven fields it passes, the others at their defaults.\<close>

definition new_conflict ::
  "int \<Rightarrow> int \<Rightarrow> int \<Rightarrow> string list \<Rightarrow> string list \<Rightarrow> string list \<Rightarrow> int \<Rightarrow> ConflictMarkers" where
  "new_conflict s m e b l r cid =
     \<lparr>start = s, middle = m, end_idx = e, base_content = b, local_content = l,
      remote_content = r, conflict_id = cid, is_resolved = False, resolved_with = None,
      original_start = 0, original_end = 0, resolved_lines = None, rejected_lines = None\<rparr>"

section \<open>GitRepository.parse_conflict_markers\<close>

text \<open>
  Each inner \<open>while\<close> loop of the parser advances \<open>i\<close> and appends the line to a content
  list until the text ends or a line with one of the stop prefixes is met:
  \<open>scan_until stops lines i acc\<close> returns the index reached and the lines collected.
\<close>

function scan_until :: "string list \<Rightarrow> string list \<Rightarrow> nat \<Rightarrow> string list \<Rightarrow> nat \<times> string list" where
  "scan_until stops lines i acc =
     (if i < length lines \<and> \<not> (\<exists>p \<in> set stops. startswith (lines ! i) p)
      then scan_until stops lines (i + 1) (acc @ [lines ! i])
      else (i, acc))"
  by pat_completeness auto
termination
  by (relation "measure (\<lambda>(stops, lines, i, acc). length lines - i)") auto

declare scan_until.simps [simp del]

lemma scan_until_ge: "i \<le> fst (scan_until stops lines i acc)"
proof (induction stops lines i acc rule: scan_until.induct)
  case (1 stops lines i acc)
  show ?case
  proof (cases "i < length lines \<and> \<not> (\<exists>p \<in> set stops. startswith (lines ! i) p)")
    case True
    with "1.IH" have "i + 1 \<le> fst (scan_until stops lines (i + 1) (acc @ [lines ! i]))" by simp
    with True show ?thesis by (subst scan_until.simps) simp
  next
    case False
    then show ?thesis by (subst scan_until.simps) auto
  qed
qed

text \<open>
  The body of the outer loop for one start marker at index \<open>i\<close>: it returns the index
  the inner loops stopped at and the region, if the block was closed.
\<close>

definition parse_block :: "string list \<Rightarrow> nat \<Rightarrow> int \<Rightarrow> nat \<times> ConflictMarkers option" where
  "parse_block lines i cid =
     (let start_idx = i;
          (i1, local_content) = scan_until [''|||||||'', ''=======''] lines (i + 1) [];
          (i2, base_content) =
             (if i1 < length lines \<and> startswith (lines ! i1) ''|||||||''
              then scan_until [''=======''] lines (i1 + 1) []
              else (i1, []))
      in if i2 < length lines \<and> startswith (lines ! i2) ''=======''
         then (let middle_idx = i2;
                   (i3, remote_content) = scan_until [''>>>>>>>''] lines (i2 + 1) []
               in if i3 < length lines \<and> startswith (lines ! i3) ''>>>>>>>''
                  then (i3, Some (new_conflict (int start_idx) (int middle_idx) (int i3)
                                     base_content local_content remote_content cid))
                  else (i3, None))
         else (i2, None))"

lemma parse_block_ge: "i < fst (parse_block lines i cid)"
proof -
  obtain i1 lc where s1: "scan_until [''|||||||'', ''=======''] lines (i + 1) [] = (i1, lc)"
    by fastforce
  have g1: "i + 1 \<le> i1" using scan_until_ge [of "i + 1" "[''|||||||'', ''=======''] " lines "[]"] s1 by simp
  obtain i2 bc where s2: "(if i1 < length lines \<and> startswith (lines ! i1) ''|||||||''
              then scan_until [''=======''] lines (i1 + 1) [] else (i1, [])) = (i2, bc)"
    by fastforce
  have g2: "i1 \<le> i2"
    using scan_until_ge [of "i1 + 1" "[''=======''] " lines "[]"] s2 by (auto split: if_splits)
  obtain i3 rc where s3: "scan_until [''>>>>>>>''] lines (i2 + 1) [] = (i3, rc)"
    by fastforce
  have g3: "i2 + 1 \<le> i3" using scan_until_ge [of "i2 + 1" "[''>>>>>>>''] " lines "[]"] s3 by simp
  show ?thesis
    unfolding parse_block_def Let_def s1 split_conv s2 s3
    using g1 g2 g3 by auto
qed

lemma parse_block_gt: "(i', r) = parse_block lines i cid \<Longrightarrow> i < i'"
  using parse_block_ge [of i lines cid] by (metis fst_conv)

text \<open>
  The outer loop, with the running index \<open>i\<close>, the next \<open>conflict_id\<close> and the list
  built so far. After a start marker the index left by the inner loops is incremented
  once more, whether or not a region was appended.
\<close>

function parse_loop :: "string list \<Rightarrow> nat \<Rightarrow> int \<Rightarrow> ConflictMarkers list \<Rightarrow> ConflictMarkers list" where
  "parse_loop lines i cid conflicts =
     (if i < length lines then
        (if startswith (lines ! i) ''<<<<<<<'' then
           (case parse_block lines i cid of
              (i', Some c) \<Rightarrow> parse_loop lines (i' + 1) (cid + 1) (conflicts @ [c])
            | (i', None) \<Rightarrow> parse_loop lines (i' + 1) cid conflicts)
         else parse_loop lines (i + 1) cid conflicts)
      else conflicts)"
  by pat_completeness auto
termination
  by (relation "measure (\<lambda>(lines, i, cid, conflicts). length lines - i)")
     (auto dest: parse_block_gt)

declare parse_loop.simps [simp del]

definition parse_conflict_markers :: "string \<Rightarrow> ConflictMarkers list" where
  "parse_conflict_markers content = parse_loop (splitlines content) 0 0 []"

section \<open>DiffHighlighter\<close>

text \<open>
  \<open>difflib.unified_diff\<close> belongs to the Python standard library, not to this program.
  The functions that call it take it as the parameter \<open>unified_diff\<close>: applied to the
  two line lists and the number \<open>n\<close> of context lines it returns the lines the
  generator yields (\<open>lineterm\<close> is the empty string at both call sites).
\<close>

type_synonym differ = "string list \<Rightarrow> string list \<Rightarrow> nat \<Rightarrow> string list"

record DiffHighlight =
  start_line :: int
  end_line :: int
  highlight_type :: string
  content :: "string list"







text \<open>
  The loop of \<open>create_rejection_preview\<close> over the lines of the diff, with the flag
  \<open>in_diff\<close> and the list \<open>preview_lines\<close> it appends to.
\<close>

fun preview_loop :: "bool \<Rightarrow> string list \<Rightarrow> string list \<Rightarrow> string list" where
  "preview_loop in_diff [] preview_lines = preview_lines"
| "preview_loop in_diff (line # rest) preview_lines =
     (if startswith line ''@@'' then preview_loop True rest (preview_lines @ [''// '' @ line])
      else if startswith line ''-''
        then preview_loop in_diff rest (preview_lines @ [''// CHOSEN:   '' @ drop 1 line])
      else if startswith line ''+''
        then preview_loop in_diff rest (preview_lines @ [''// REJECTED: '' @ drop 1 line])
      else if startswith line '' '' \<and> in_diff
        then preview_loop in_diff rest (preview_lines @ [''//          '' @ drop 1 line])
      else preview_loop in_diff rest preview_lines)"

definition create_rejection_preview :: "differ \<Rightarrow> string list \<Rightarrow> string list \<Rightarrow> string" where
  "create_rejection_preview unified_diff chosen_content rejected_content =
     (if rejected_content = [] then ''// No alternative content to show''
      else
        (let preview_lines = [''// ===== REJECTED ALTERNATIVE =====''];
             preview_lines =
               (if chosen_content = rejected_content
                then preview_lines @ [''// (Identical to chosen content)'']
                       @ map (\<lambda>line. ''// '' @ line) rejected_content
                else preview_loop False (unified_diff chosen_content rejected_content 1)
                       preview_lines)
         in join_str [CHR 0x0A] (preview_lines @ [''// ===== END REJECTED =====''])))"

section \<open>GitMergeApp\<close>

text \<open>
  The application object with the DearPyGui values it reads and writes. \<open>git_repo\<close>
  holds the \<open>repo_path\<close> of the \<open>GitRepository\<close>, or \<open>None\<close>; paths are the texts
  \<open>str(path)\<close>. The fields \<open>local_text\<close>, \<open>base_text\<close>, \<open>remote_text\<close>,
  \<open>rejection_preview\<close>, \<open>status_text\<close> and \<open>current_file_label\<close> are the values of
  the widgets with these tags; \<open>local_text\<close> is the working copy, the document that the
  resolutions rewrite. The list of conflicted files and the four widgets that only
  \<open>update_conflict_display\<close> writes (the two counters, the list of conflicts and the
  navigation label) are display data that no operation below reads; they are left out,
  and with them \<open>update_conflict_display\<close>.
\<close>

record GitMergeApp =
  git_repo :: "string option"
  current_file :: "string option"
  current_conflicts :: "ConflictMarkers list"
  original_conflicts :: "ConflictMarkers list"
  file_versions :: "string \<rightharpoonup> string"
  selected_conflict_index :: int
  original_content :: string
  show_rejection_preview :: bool
  local_text :: string
  base_text :: string
  remote_text :: string
  rejection_preview :: string
  status_text :: string
  current_file_label :: string

text \<open>
  What lies outside the program: \<open>get_file_versions\<close> (three calls of \<open>git show\<close>) and
  \<open>Path.read_text\<close>, for a repository path and a file path. Either may raise; the
  exception carries its message \<open>str(e)\<close>.
\<close>

datatype exn = Exception string

fun str_exn :: "exn \<Rightarrow> string" where
  "str_exn (Exception m) = m"

record env =
  get_file_versions :: "string \<Rightarrow> string \<Rightarrow> exn + (string \<rightharpoonup> string)"
  read_text :: "string \<Rightarrow> string \<Rightarrow> exn + string"

datatype py_error = IndexError

text \<open>\<open>str(n)\<close> for an integer and \<open>s.upper()\<close> for a text of ASCII characters.\<close>

fun str_nat :: "nat \<Rightarrow> string" where
  "str_nat n = (if n < 10 then [char_of (48 + n)] else str_nat (n div 10) @ [char_of (48 + n mod 10)])"

declare str_nat.simps [simp del]

definition str_int :: "int \<Rightarrow> string" where
  "str_int i = (if i < 0 then CHR ''-'' # str_nat (nat (- i)) else str_nat (nat i))"

definition upper :: "string \<Rightarrow> string" where
  "upper s = map (\<lambda>c. if 97 \<le> (of_char c :: nat) \<and> (of_char c :: nat) \<le> 122
                       then char_of ((of_char c :: nat) - 32) else c) s"

definition update_status :: "string \<Rightarrow> GitMergeApp \<Rightarrow> GitMergeApp" where
  "update_status message s = s\<lparr>status_text := message\<rparr>"

text \<open>The copy of a region that \<open>load_conflicted_file\<close> keeps in \<open>original_conflicts\<close>.\<close>

definition backup_conflict :: "ConflictMarkers \<Rightarrow> ConflictMarkers" where
  "backup_conflict conflict =
     (new_conflict (start conflict) (middle conflict) (end_idx conflict)
        (base_content conflict) (local_content conflict) (remote_content conflict)
        (conflict_id conflict))
       \<lparr>original_start := start conflict, original_end := end_idx conflict\<rparr>"

definition dict_get :: "(string \<rightharpoonup> string) \<Rightarrow> string \<Rightarrow> string \<Rightarrow> string" where
  "dict_get d k dflt = (case d k of None \<Rightarrow> dflt | Some v \<Rightarrow> v)"

definition load_conflicted_file :: "env \<Rightarrow> string \<Rightarrow> GitMergeApp \<Rightarrow> GitMergeApp" where
  "load_conflicted_file e file_path s =
     (case git_repo s of
        None \<Rightarrow> s
      | Some repo_path \<Rightarrow>
         (let s = s\<lparr>current_file := Some file_path, current_file_label := file_path\<rparr>
          in case get_file_versions e repo_path file_path of
               Inl ex \<Rightarrow> update_status (''Error loading file: '' @ str_exn ex) s
             | Inr versions \<Rightarrow>
                (let s = s\<lparr>file_versions := versions\<rparr>
                 in case read_text e repo_path file_path of
                      Inl ex \<Rightarrow> update_status (''Error loading file: '' @ str_exn ex) s
                    | Inr working_copy \<Rightarrow>
                       (let s = s\<lparr>original_content := working_copy\<rparr>;
                            s = s\<lparr>current_conflicts := parse_conflict_markers working_copy\<rparr>;
                            s = s\<lparr>original_conflicts := map backup_conflict (current_conflicts s)\<rparr>;
                            s = s\<lparr>base_text := dict_get (file_versions s) ''base'' ''Not available'',
                                   local_text := working_copy,
                                   remote_text := dict_get (file_versions s) ''remote'' ''Not available'',
                                   rejection_preview := ''// Make a choice to see rejected alternative''\<rparr>;
                            s = s\<lparr>selected_conflict_index :=
                                     (if current_conflicts s \<noteq> [] then 0 else - 1)\<rparr>
                        in update_status (''Loaded '' @ file_path @ '' with ''
                                           @ str_int (int (length (current_conflicts s)))
                                           @ '' conflicts'') s))))"

text \<open>
  The methods that take a \<open>ConflictMarkers\<close> object are only called with an element of
  \<open>current_conflicts\<close>; the model passes its position \<open>i\<close> in the list. The loop of
  \<open>_update_working_copy_with_resolution\<close> changes regions whose \<open>conflict_id\<close> differs
  from that of the resolved one, so the resolved region is the same object throughout.
\<close>

definition update_working_copy_with_resolution ::
  "nat \<Rightarrow> string list \<Rightarrow> GitMergeApp \<Rightarrow> GitMergeApp" where
  "update_working_copy_with_resolution i chosen_content s =
     (let conflict = current_conflicts s ! i;
          content = local_text s;
          lines = splitlines content;
          new_lines = slice_to lines (start conflict) @ chosen_content
                        @ slice_from lines (end_idx conflict + 1);
          lines_removed = (end_idx conflict - start conflict + 1) - int (length chosen_content);
          s = s\<lparr>current_conflicts :=
                   map (\<lambda>other_conflict.
                          if conflict_id other_conflict \<noteq> conflict_id conflict
                             \<and> start other_conflict > end_idx conflict
                          then other_conflict\<lparr>start := start other_conflict - lines_removed,
                                              middle := middle other_conflict - lines_removed,
                                              end_idx := end_idx other_conflict - lines_removed\<rparr>
                          else other_conflict)
                       (current_conflicts s)\<rparr>
      in s\<lparr>local_text := join_str [CHR 0x0A] new_lines\<rparr>)"

text \<open>The method \<open>_show_rejection_preview\<close>; the field of the same name is the check box.\<close>

definition show_rejection_preview_of ::
  "differ \<Rightarrow> string list \<Rightarrow> string list \<Rightarrow> string \<Rightarrow> GitMergeApp \<Rightarrow> GitMergeApp" where
  "show_rejection_preview_of unified_diff chosen_content rejected_content resolution s =
     (if \<not> show_rejection_preview s then s
      else
        (let preview_text = create_rejection_preview unified_diff chosen_content rejected_content;
             header = [''// RESOLUTION: Chose '' @ upper resolution,
                       ''// Conflict '' @ str_int (selected_conflict_index s + 1) @ '' resolved'',
                       ''// '' @ replicate 40 CHR ''='',
                       []];
             full_preview = join_str [CHR 0x0A] header @ [CHR 0x0A] @ preview_text
         in s\<lparr>rejection_preview := full_preview\<rparr>))"

definition resolve_single_conflict :: "differ \<Rightarrow> nat \<Rightarrow> string \<Rightarrow> GitMergeApp \<Rightarrow> GitMergeApp" where
  "resolve_single_conflict unified_diff i resolution s =
     (let conflict = current_conflicts s ! i;
          (chosen_content, rejected_content) =
             (if resolution = ''local'' then (local_content conflict, remote_content conflict)
              else if resolution = ''remote'' then (remote_content conflict, local_content conflict)
              else (base_content conflict, local_content conflict @ remote_content conflict));
          conflict = conflict\<lparr>is_resolved := True, resolved_with := Some resolution,
                               resolved_lines := Some chosen_content,
                               rejected_lines := Some rejected_content\<rparr>;
          s = s\<lparr>current_conflicts := (current_conflicts s)[i := conflict]\<rparr>;
          s = update_working_copy_with_resolution i chosen_content s;
          s = show_rejection_preview_of unified_diff chosen_content rejected_content resolution s
      in update_status (''Resolved conflict '' @ str_int (selected_conflict_index s + 1)
                         @ '' with '' @ resolution) s)"

text \<open>The test that guards the three \<open>accept\<close> methods and \<open>revert_conflict\<close>.\<close>

definition selection_valid :: "GitMergeApp \<Rightarrow> bool" where
  "selection_valid s = (selected_conflict_index s \<ge> 0
       \<and> selected_conflict_index s < int (length (current_conflicts s)))"

definition accept_local_conflict :: "differ \<Rightarrow> GitMergeApp \<Rightarrow> GitMergeApp" where
  "accept_local_conflict unified_diff s =
     (if selection_valid s
      then resolve_single_conflict unified_diff (nat (selected_conflict_index s)) ''local'' s
      else s)"

definition accept_remote_conflict :: "differ \<Rightarrow> GitMergeApp \<Rightarrow> GitMergeApp" where
  "accept_remote_conflict unified_diff s =
     (if selection_valid s
      then resolve_single_conflict unified_diff (nat (selected_conflict_index s)) ''remote'' s
      else s)"

definition accept_base_conflict :: "differ \<Rightarrow> GitMergeApp \<Rightarrow> GitMergeApp" where
  "accept_base_conflict unified_diff s =
     (if selection_valid s
      then resolve_single_conflict unified_diff (nat (selected_conflict_index s)) ''base'' s
      else s)"

text \<open>
  \<open>revert_conflict\<close> reads \<open>original_conflicts[selected_conflict_index]\<close> before it does
  anything else, which raises \<open>IndexError\<close> when that list is shorter. The status line
  is written after the reload, with the selection the reload has left.
\<close>

definition revert_conflict :: "env \<Rightarrow> GitMergeApp \<Rightarrow> py_error + GitMergeApp" where
  "revert_conflict e s =
     (if selection_valid s then
        (if \<not> selected_conflict_index s < int (length (original_conflicts s)) then Inl IndexError
         else
           (let i = nat (selected_conflict_index s);
                conflict = (current_conflicts s ! i)
                             \<lparr>is_resolved := False, resolved_with := None,
                              resolved_lines := None, rejected_lines := None\<rparr>;
                s = s\<lparr>current_conflicts := (current_conflicts s)[i := conflict]\<rparr>;
                s = (case current_file s of
                       Some file_path \<Rightarrow> load_conflicted_file e file_path s
                     | None \<Rightarrow> s)
            in Inr (update_status (''Reverted conflict ''
                                    @ str_int (selected_conflict_index s + 1)) s)))
      else Inr s)"

text \<open>
  \<open>GitRepository.resolve_conflict\<close> writes the text to the file and stages it with
  \<open>git add\<close>. Whether the two steps succeed is decided outside the program and given
  by the flags \<open>write_ok\<close> and \<open>add_ok\<close>; a failure of either is caught and makes the
  result \<open>False\<close>. After a write that succeeded, \<open>read_text\<close> of that file gives the
  text written, read as Python reads text files: \<open>\r\n\<close> and \<open>\r\<close> become \<open>\n\<close>
  (\<open>universal_newlines\<close>). A write that failed is taken to leave the file as it was,
  and what \<open>git show\<close> reports afterwards is kept as it was.
\<close>

function universal_newlines :: "string \<Rightarrow> string" where
  "universal_newlines [] = []"
| "universal_newlines (c # cs) =
     (if c = CHR 0x0D
      then CHR 0x0A # universal_newlines (if cs \<noteq> [] \<and> hd cs = CHR 0x0A then tl cs else cs)
      else c # universal_newlines cs)"
  by pat_completeness auto
termination
  by (relation "measure length") (auto simp: le_imp_less_Suc)

definition resolve_conflict ::
  "env \<Rightarrow> bool \<Rightarrow> bool \<Rightarrow> string \<Rightarrow> string \<Rightarrow> string \<Rightarrow> env \<times> bool" where
  "resolve_conflict e write_ok add_ok repo_path file_path resolved_content =
     (if \<not> write_ok then (e, False)
      else (e\<lparr>read_text :=
                 (\<lambda>r p. if r = repo_path \<and> p = file_path
                         then Inr (universal_newlines resolved_content)
                         else read_text e r p)\<rparr>,
            add_ok))"

text \<open>
  \<open>mark_resolved\<close>, without the update of the list of conflicted files and its list
  box.
\<close>

definition mark_resolved :: "env \<Rightarrow> bool \<Rightarrow> bool \<Rightarrow> GitMergeApp \<Rightarrow> env \<times> GitMergeApp" where
  "mark_resolved e write_ok add_ok s =
     (case current_file s of
        None \<Rightarrow> (e, s)
      | Some file_path \<Rightarrow>
         (case git_repo s of
            None \<Rightarrow> (e, s)
          | Some repo_path \<Rightarrow>
             (let content = local_text s;
                  (e', ok) = resolve_conflict e write_ok add_ok repo_path file_path content
              in if ok
                 then (e', update_status (''Marked '' @ file_path @ '' as resolved in Git'') s)
                 else (e', update_status ''Failed to mark file as resolved'' s))))"

text \<open>
  \<open>next_conflict\<close> with the body of \<open>highlight_selected_conflict\<close>: under the test of
  \<open>next_conflict\<close> the new selection is below the length of the list, so the region it
  reads exists.
\<close>

definition next_conflict :: "GitMergeApp \<Rightarrow> GitMergeApp" where
  "next_conflict s =
     (if current_conflicts s \<noteq> []
         \<and> selected_conflict_index s < int (length (current_conflicts s)) - 1
      then (let s = s\<lparr>selected_conflict_index := selected_conflict_index s + 1\<rparr>
            in if selected_conflict_index s < 0 then s
               else (let conflict = current_conflicts s ! nat (selected_conflict_index s)
                     in update_status (''Selected conflict ''
                          @ str_int (selected_conflict_index s + 1) @ '' at lines ''
                          @ str_int (start conflict) @ ''-'' @ str_int (end_idx conflict)) s))
      else s)"

lemma length_update_working_copy:
  "length (current_conflicts (update_working_copy_with_resolution i chosen s))
     = length (current_conflicts s)"
  by (simp add: update_working_copy_with_resolution_def Let_def)

lemma length_resolve_single_conflict:
  "length (current_conflicts (resolve_single_conflict unified_diff i resolution s))
     = length (current_conflicts s)"
  by (simp add: resolve_single_conflict_def Let_def split_def update_status_def
        show_rejection_preview_of_def length_update_working_copy)

text \<open>
  \<open>resolve_with_version\<close>: the \<open>for\<close> loop over \<open>current_conflicts\<close> visits the
  positions of the list in order and tests \<open>is_resolved\<close> when it comes to a region.
\<close>

function resolve_loop :: "differ \<Rightarrow> string \<Rightarrow> nat \<Rightarrow> GitMergeApp \<Rightarrow> GitMergeApp" where
  "resolve_loop unified_diff version i s =
     (if i < length (current_conflicts s)
      then resolve_loop unified_diff version (i + 1)
             (if \<not> is_resolved (current_conflicts s ! i)
              then resolve_single_conflict unified_diff i version s else s)
      else s)"
  by pat_completeness auto
termination
  by (relation "measure (\<lambda>(unified_diff, version, i, s). length (current_conflicts s) - i)")
     (auto simp: length_resolve_single_conflict)

declare resolve_loop.simps [simp del]

definition resolve_with_version :: "differ \<Rightarrow> string \<Rightarrow> GitMergeApp \<Rightarrow> GitMergeApp" where
  "resolve_with_version unified_diff version s =
     (if current_conflicts s = [] then s
      else update_status (''Resolved all conflicts with '' @ version)
             (resolve_loop unified_diff version 0 s))"

section \<open>The vocabulary of the properties\<close>

text \<open>
  A well-formed conflict block of the marker format, with the lines that precede it:
  the lines before the start marker, the start marker, the local lines, the base section
  if there is one (its separator and the base lines), the middle separator, the remote
  lines and the end marker. A document is a list of such blocks and the lines after the
  last one. In a well-formed block no line is taken for a marker the parser is waiting
  for: no line before the block starts with the start prefix, no local line with the
  base or the middle prefix, no base line with the middle prefix, no remote line with
  the end prefix.
\<close>

record conflict_block =
  gap_lines :: "string list"
  start_marker :: string
  local_lines :: "string list"
  base_section :: "(string \<times> string list) option"
  middle_marker :: string
  remote_lines :: "string list"
  end_marker :: string

definition base_rendered :: "conflict_block \<Rightarrow> string list" where
  "base_rendered b = (case base_section b of None \<Rightarrow> [] | Some (bl, bs) \<Rightarrow> bl # bs)"

definition base_lines :: "conflict_block \<Rightarrow> string list" where
  "base_lines b = (case base_section b of None \<Rightarrow> [] | Some (bl, bs) \<Rightarrow> bs)"

definition render_block :: "conflict_block \<Rightarrow> string list" where
  "render_block b = gap_lines b @ [start_marker b] @ local_lines b @ base_rendered b
                      @ [middle_marker b] @ remote_lines b @ [end_marker b]"

definition wf_block :: "conflict_block \<Rightarrow> bool" where
  "wf_block b =
     ((\<forall>l \<in> set (gap_lines b). \<not> startswith l ''<<<<<<<'') \<and>
      startswith (start_marker b) ''<<<<<<<'' \<and>
      (\<forall>l \<in> set (local_lines b). \<not> startswith l ''|||||||'' \<and> \<not> startswith l ''======='') \<and>
      (case base_section b of None \<Rightarrow> True
       | Some (bl, bs) \<Rightarrow> startswith bl ''|||||||'' \<and> (\<forall>l \<in> set bs. \<not> startswith l ''======='')) \<and>
      startswith (middle_marker b) ''======='' \<and>
      (\<forall>l \<in> set (remote_lines b). \<not> startswith l ''>>>>>>>'') \<and>
      startswith (end_marker b) ''>>>>>>>'')"

definition render_doc :: "conflict_block list \<Rightarrow> string list \<Rightarrow> string list" where
  "render_doc bs trailer = concat (map render_block bs) @ trailer"

definition wf_doc :: "conflict_block list \<Rightarrow> string list \<Rightarrow> bool" where
  "wf_doc bs trailer =
     ((\<forall>b \<in> set bs. wf_block b) \<and> (\<forall>l \<in> set trailer. \<not> startswith l ''<<<<<<<''))"

text \<open>
  The region expected for a block that begins at line \<open>off\<close> of the document, and the
  regions expected for a list of blocks.
\<close>

definition region_of :: "nat \<Rightarrow> int \<Rightarrow> conflict_block \<Rightarrow> ConflictMarkers" where
  "region_of off cid b =
     (let s = off + length (gap_lines b);
          m = s + 1 + length (local_lines b) + length (base_rendered b);
          e = m + 1 + length (remote_lines b)
      in new_conflict (int s) (int m) (int e) (base_lines b) (local_lines b) (remote_lines b) cid)"

fun regions_of :: "nat \<Rightarrow> int \<Rightarrow> conflict_block list \<Rightarrow> ConflictMarkers list" where
  "regions_of off cid [] = []"
| "regions_of off cid (b # bs) =
     region_of off cid b # regions_of (off + length (render_block b)) (cid + 1) bs"

text \<open>
  The invariants of one region in a list of lines: the three indices are in range and in
  order and point at lines with the three marker prefixes; the line after the local lines
  is either the middle separator or a base separator that lies strictly between the start
  marker and the middle separator. \<open>before c d\<close>: region \<open>c\<close> starts before \<open>d\<close> and ends
  before \<open>d\<close> starts.
\<close>

definition region_ok :: "string list \<Rightarrow> ConflictMarkers \<Rightarrow> bool" where
  "region_ok lines c =
     (0 \<le> start c \<and> start c < middle c \<and> middle c < end_idx c \<and> end_idx c < int (length lines) \<and>
      startswith (lines ! nat (start c)) ''<<<<<<<'' \<and>
      startswith (lines ! nat (middle c)) ''======='' \<and>
      startswith (lines ! nat (end_idx c)) ''>>>>>>>'' \<and>
      (let separator_base = start c + 1 + int (length (local_content c))
       in separator_base = middle c \<or>
          (startswith (lines ! nat separator_base) ''|||||||'' \<and>
           start c < separator_base \<and> separator_base < middle c)))"

definition before :: "ConflictMarkers \<Rightarrow> ConflictMarkers \<Rightarrow> bool" where
  "before c d = (start c < start d \<and> end_idx c < start d)"

text \<open>
  How the parser pairs the markers of a region: no line between the start marker and the
  middle separator starts with the middle prefix, no line between the middle separator and
  the end marker starts with the end prefix, the remote lines are the lines between these
  two, and the lines between the start marker and the middle separator are the local
  lines, or the local lines, one further line and the base lines.
\<close>

definition first_fit :: "string list \<Rightarrow> ConflictMarkers \<Rightarrow> bool" where
  "first_fit lines c =
     (let between = take (nat (middle c - start c) - 1) (drop (nat (start c) + 1) lines);
          after = take (nat (end_idx c - middle c) - 1) (drop (nat (middle c) + 1) lines)
      in list_all (\<lambda>l. \<not> startswith l ''======='') between \<and>
         list_all (\<lambda>l. \<not> startswith l ''>>>>>>>'') after \<and>
         remote_content c = after \<and>
         list_all (\<lambda>l. \<not> startswith l ''|||||||'' \<and> \<not> startswith l ''======='') (local_content c) \<and>
         (between = local_content c \<or>
          between = local_content c
                      @ [lines ! (nat (start c) + 1 + length (local_content c))]
                      @ base_content c))"

text \<open>
  A marker sequence in canonical form begins at line \<open>i\<close>: the lines with a marker
  prefix from \<open>i\<close> on are a start marker, then a middle separator and an end marker, or a
  base separator, a middle separator and an end marker.
\<close>

definition is_marker :: "string \<Rightarrow> bool" where
  "is_marker l = (startswith l ''<<<<<<<'' \<or> startswith l ''|||||||''
                    \<or> startswith l ''======='' \<or> startswith l ''>>>>>>>'')"

definition canonical_at :: "string list \<Rightarrow> nat \<Rightarrow> bool" where
  "canonical_at lines i =
     (case filter is_marker (drop i lines) of
        a # b # c # rest \<Rightarrow>
          startswith a ''<<<<<<<'' \<and>
          ((startswith b ''======='' \<and> startswith c ''>>>>>>>'') \<or>
           (startswith b ''|||||||'' \<and> startswith c ''======='' \<and>
            rest \<noteq> [] \<and> startswith (hd rest) ''>>>>>>>''))
      | _ \<Rightarrow> False)"

text \<open>
  Resolving one region on its own: the region is selected and the \<open>accept\<close> method of the
  variant is called. \<open>resolve_all_spec\<close> follows the words of the specification for
  resolving all regions: the regions that are unresolved, in ascending order of \<open>start\<close>,
  each resolved on its own.
\<close>

definition resolve_individually :: "differ \<Rightarrow> string \<Rightarrow> nat \<Rightarrow> GitMergeApp \<Rightarrow> GitMergeApp" where
  "resolve_individually unified_diff version i s =
     (let s = s\<lparr>selected_conflict_index := int i\<rparr>
      in if version = ''local'' then accept_local_conflict unified_diff s
         else if version = ''remote'' then accept_remote_conflict unified_diff s
         else accept_base_conflict unified_diff s)"

definition resolve_all_spec :: "differ \<Rightarrow> string \<Rightarrow> GitMergeApp \<Rightarrow> GitMergeApp" where
  "resolve_all_spec unified_diff version s =
     fold (resolve_individually unified_diff version)
       (sort_key (\<lambda>i. start (current_conflicts s ! i))
          (filter (\<lambda>i. \<not> is_resolved (current_conflicts s ! i))
             [0..<length (current_conflicts s)]))
       s"

text \<open>
  The same with the unresolved regions taken in the order of the list.
\<close>

definition resolve_all_in_list_order :: "differ \<Rightarrow> string \<Rightarrow> GitMergeApp \<Rightarrow> GitMergeApp" where
  "resolve_all_in_list_order unified_diff version s =
     fold (resolve_individually unified_diff version)
       (filter (\<lambda>i. \<not> is_resolved (current_conflicts s ! i))
          [0..<length (current_conflicts s)])
       s"

text \<open>The note by which the rejection preview reports identical contents.\<close>

definition reports_identical :: "string \<Rightarrow> bool" where
  "reports_identical preview = sublist ''(Identical to chosen content)'' preview"

text \<open>A document with two conflict blocks, the second with a base section.\<close>

definition example_blocks :: "conflict_block list" where
  "example_blocks =
     [\<lparr>gap_lines = [''x''], start_marker = ''<<<<<<< HEAD'', local_lines = [''a''],
       base_section = None, middle_marker = ''======='', remote_lines = [''b''],
       end_marker = ''>>>>>>> branch''\<rparr>,
      \<lparr>gap_lines = [''y''], start_marker = ''<<<<<<< ours'', local_lines = [],
       base_section = Some (''||||||| base'', [''q'']), middle_marker = ''======='',
       remote_lines = [''r'', ''s''], end_marker = ''>>>>>>> theirs''\<rparr>]"

definition example_text :: string where
  "example_text = join_str [CHR 0x0A]
     [''x'', ''<<<<<<< HEAD'', ''a'', ''======='', ''b'', ''>>>>>>> branch'', ''y'',
      ''<<<<<<< ours'', ''||||||| base'', ''q'', ''======='', ''r'', ''s'', ''>>>>>>> theirs'', ''z'']"

text \<open>
  A text whose first start marker is followed by an end marker before any middle
  separator, and a text with a closed block followed by a start marker that is never
  closed, with its closed block.
\<close>

definition malformed_text :: string where
  "malformed_text = join_str [CHR 0x0A]
     [''<<<<<<< A'', ''a'', ''>>>>>>> A'', ''<<<<<<< B'', ''b'', ''======='', ''c'', ''>>>>>>> B'']"

definition unterminated_text :: string where
  "unterminated_text = join_str [CHR 0x0A]
     [''<<<<<<< A'', ''a'', ''======='', ''b'', ''>>>>>>> A'', ''<<<<<<< B'', ''c'']"

definition unterminated_blocks :: "conflict_block list" where
  "unterminated_blocks =
     [\<lparr>gap_lines = [], start_marker = ''<<<<<<< A'', local_lines = [''a''],
       base_section = None, middle_marker = ''======='', remote_lines = [''b''],
       end_marker = ''>>>>>>> A''\<rparr>]"

text \<open>
  A differ for the examples (one hunk that replaces every line; nothing for equal lists),
  an environment in which the file holds the example text, the application after its
  start in a repository, and the application after the file has been loaded.
\<close>

definition example_diff :: differ where
  "example_diff a b n =
     (if a = b then []
      else [''--- '', ''+++ '', ''@@ -1 +1 @@''] @ map (\<lambda>l. CHR ''-'' # l) a @ map (\<lambda>l. CHR ''+'' # l) b)"

definition example_env :: env where
  "example_env = \<lparr>get_file_versions = (\<lambda>repo_path file_path. Inr Map.empty),
                   read_text = (\<lambda>repo_path file_path. Inr example_text)\<rparr>"

definition initial_app :: GitMergeApp where
  "initial_app =
     \<lparr>git_repo = Some ''repo'', current_file = None, current_conflicts = [],
      original_conflicts = [], file_versions = Map.empty, selected_conflict_index = - 1,
      original_content = [], show_rejection_preview = True, local_text = [], base_text = [],
      remote_text = [], rejection_preview = ''// Make a choice to see rejected alternative'',
      status_text = ''Found 1 conflicted files'', current_file_label = ''None selected''\<rparr>"

definition example_app :: GitMergeApp where
  "example_app = load_conflicted_file example_env ''f.txt'' initial_app"

text \<open>
  A document of three adjacent conflict blocks, the application after loading it, and the
  application after the first region has been accepted twice, with \<open>local\<close> and then
  with \<open>base\<close>.
\<close>

definition example_text3 :: string where
  "example_text3 = join_str [CHR 0x0A]
     [''<<<<<<< A'', ''al'', ''======='', ''ar'', ''>>>>>>> A'',
      ''<<<<<<< B'', ''bl'', ''======='', ''>>>>>>> B'',
      ''<<<<<<< C'', ''cl'', ''======='', ''cr'', ''>>>>>>> C'']"

definition example_env3 :: env where
  "example_env3 = \<lparr>get_file_versions = (\<lambda>repo_path file_path. Inr Map.empty),
                    read_text = (\<lambda>repo_path file_path. Inr example_text3)\<rparr>"

definition example_app3 :: GitMergeApp where
  "example_app3 = load_conflicted_file example_env3 ''f.txt'' initial_app"

definition twice_resolved_app :: GitMergeApp where
  "twice_resolved_app =
     accept_base_conflict example_diff (accept_local_conflict example_diff example_app3)"

text \<open>
  The three-block document after these steps: the first region is accepted with
  \<open>local\<close> and the file is marked resolved, which writes the working copy to the file
  (\<open>marked_env\<close>); then the second region is selected and accepted with \<open>local\<close>, and
  the third region is selected.
\<close>

definition marked_env :: env where
  "marked_env = fst (mark_resolved example_env3 True True
                       (accept_local_conflict example_diff example_app3))"

definition third_selected_app :: GitMergeApp where
  "third_selected_app =
     next_conflict
       (accept_local_conflict example_diff
          (next_conflict
             (snd (mark_resolved example_env3 True True
                     (accept_local_conflict example_diff example_app3)))))"

section \<open>The parser on lists of lines\<close>

lemma marker_excl: "startswith b ''|||||||'' \<Longrightarrow> \<not> startswith b ''======='' "
  by (auto simp: startswith_def prefix_def)

lemma scan_until_append:
  "\<forall>l \<in> set xs. \<not> (\<exists>p \<in> set stops. startswith l p) \<Longrightarrow>
   rest = [] \<or> (\<exists>p \<in> set stops. startswith (hd rest) p) \<Longrightarrow>
   scan_until stops (pre @ xs @ rest) (length pre) acc = (length pre + length xs, acc @ xs)"
proof (induction xs arbitrary: pre acc)
  case Nil
  then show ?case
    by (subst scan_until.simps) (auto simp: nth_append hd_conv_nth)
next
  case (Cons x xs)
  have "scan_until stops ((pre @ [x]) @ xs @ rest) (length (pre @ [x])) (acc @ [x])
          = (length (pre @ [x]) + length xs, (acc @ [x]) @ xs)"
    using Cons.prems by (intro Cons.IH) auto
  then show ?case using Cons.prems
    by (subst scan_until.simps) (auto simp: nth_append)
qed

lemma scan_until_at:
  assumes "lines = pre @ xs @ rest" and "i = length pre"
    and "\<forall>l \<in> set xs. \<not> (\<exists>p \<in> set stops. startswith l p)"
    and "rest = [] \<or> (\<exists>p \<in> set stops. startswith (hd rest) p)"
  shows "scan_until stops lines i [] = (i + length xs, xs)"
  using scan_until_append [OF assms(3,4), of pre "[]"] assms(1,2) by simp

lemma parse_block_render:
  assumes wf: "wf_block b"
  shows "parse_block (pre @ render_block b @ rest) (length pre + length (gap_lines b)) cid
           = (length pre + length (render_block b) - 1, Some (region_of (length pre) cid b))"
proof -
  let ?lines = "pre @ render_block b @ rest"
  let ?s = "length pre + length (gap_lines b)"
  let ?i1 = "?s + 1 + length (local_lines b)"
  let ?i2 = "?i1 + length (base_rendered b)"
  let ?i3 = "?i2 + 1 + length (remote_lines b)"
  have mid: "startswith (middle_marker b) ''======='' " and endl: "startswith (end_marker b) ''>>>>>>>''"
    using wf by (auto simp: wf_block_def)
  have s1: "scan_until [''|||||||'', ''=======''] ?lines (?s + 1) [] = (?i1, local_lines b)"
  proof -
    have "scan_until [''|||||||'', ''=======''] ?lines (?s + 1) []
            = (?s + 1 + length (local_lines b), local_lines b)"
    proof (rule scan_until_at [where pre = "pre @ gap_lines b @ [start_marker b]"
          and rest = "base_rendered b @ [middle_marker b] @ remote_lines b @ [end_marker b] @ rest"])
      show "?lines = (pre @ gap_lines b @ [start_marker b]) @ local_lines b @
              base_rendered b @ [middle_marker b] @ remote_lines b @ [end_marker b] @ rest"
        by (simp add: render_block_def)
      show "?s + 1 = length (pre @ gap_lines b @ [start_marker b])" by simp
      show "\<forall>l\<in>set (local_lines b). \<not> (\<exists>p\<in>set [''|||||||'', ''=======''] . startswith l p)"
        using wf by (auto simp: wf_block_def)
      show "base_rendered b @ [middle_marker b] @ remote_lines b @ [end_marker b] @ rest = [] \<or>
            (\<exists>p\<in>set [''|||||||'', ''=======''] .
              startswith (hd (base_rendered b @ [middle_marker b] @ remote_lines b @ [end_marker b] @ rest)) p)"
        using wf mid by (auto simp: wf_block_def base_rendered_def split: option.splits)
    qed
    then show ?thesis .
  qed
  have at_i1: "?lines ! ?i1 = hd (base_rendered b @ [middle_marker b])" "?i1 < length ?lines"
    by (auto simp: render_block_def nth_append hd_append hd_conv_nth)
  have s2: "(if ?i1 < length ?lines \<and> startswith (?lines ! ?i1) ''|||||||''
              then scan_until [''=======''] ?lines (?i1 + 1) [] else (?i1, []))
            = (?i2, base_lines b)"
  proof (cases "base_section b")
    case None
    then show ?thesis using at_i1 mid marker_excl [of "middle_marker b"]
      by (auto simp: base_rendered_def base_lines_def)
  next
    case (Some p)
    obtain bl bs where p: "p = (bl, bs)" by (cases p)
    have bl: "startswith bl ''|||||||''" and bs: "\<forall>l \<in> set bs. \<not> startswith l ''======='' "
      using wf Some p by (auto simp: wf_block_def)
    have "scan_until [''=======''] ?lines (?i1 + 1) [] = (?i1 + 1 + length bs, bs)"
    proof (rule scan_until_at [where pre = "pre @ gap_lines b @ [start_marker b] @ local_lines b @ [bl]"
          and rest = "[middle_marker b] @ remote_lines b @ [end_marker b] @ rest"])
      show "?lines = (pre @ gap_lines b @ [start_marker b] @ local_lines b @ [bl]) @ bs @
              [middle_marker b] @ remote_lines b @ [end_marker b] @ rest"
        using Some p by (simp add: render_block_def base_rendered_def)
      show "?i1 + 1 = length (pre @ gap_lines b @ [start_marker b] @ local_lines b @ [bl])" by simp
      show "\<forall>l\<in>set bs. \<not> (\<exists>p\<in>set [''=======''] . startswith l p)" using bs by simp
      show "[middle_marker b] @ remote_lines b @ [end_marker b] @ rest = [] \<or>
            (\<exists>p\<in>set [''=======''] . startswith (hd ([middle_marker b] @ remote_lines b @ [end_marker b] @ rest)) p)"
        using mid by simp
    qed
    then show ?thesis using at_i1 bl Some p
      by (auto simp: base_rendered_def base_lines_def)
  qed
  have at_i2: "?lines ! ?i2 = middle_marker b" "?i2 < length ?lines"
    by (auto simp: render_block_def nth_append)
  have s3: "scan_until [''>>>>>>>''] ?lines (?i2 + 1) [] = (?i3, remote_lines b)"
  proof -
    have "scan_until [''>>>>>>>''] ?lines (?i2 + 1) [] = (?i2 + 1 + length (remote_lines b), remote_lines b)"
    proof (rule scan_until_at [where
          pre = "pre @ gap_lines b @ [start_marker b] @ local_lines b @ base_rendered b @ [middle_marker b]"
          and rest = "[end_marker b] @ rest"])
      show "?lines = (pre @ gap_lines b @ [start_marker b] @ local_lines b @ base_rendered b @ [middle_marker b])
              @ remote_lines b @ [end_marker b] @ rest"
        by (simp add: render_block_def)
      show "?i2 + 1 = length (pre @ gap_lines b @ [start_marker b] @ local_lines b @ base_rendered b @ [middle_marker b])"
        by simp
      show "\<forall>l\<in>set (remote_lines b). \<not> (\<exists>p\<in>set [''>>>>>>>''] . startswith l p)"
        using wf by (auto simp: wf_block_def)
      show "[end_marker b] @ rest = [] \<or> (\<exists>p\<in>set [''>>>>>>>''] . startswith (hd ([end_marker b] @ rest)) p)"
        using endl by simp
    qed
    then show ?thesis .
  qed
  have at_i3: "?lines ! ?i3 = end_marker b" "?i3 < length ?lines"
    by (auto simp: render_block_def nth_append)
  have len: "length pre + length (render_block b) - 1 = ?i3"
    by (simp add: render_block_def)
  show ?thesis
    unfolding parse_block_def Let_def s1 split_conv s2 s3 at_i2(1) at_i3(1) len
    using at_i2(2) at_i3(2) mid endl
    by (simp add: region_of_def Let_def add_ac)
qed



lemma parse_loop_skip:
  "\<forall>l \<in> set g. \<not> startswith l ''<<<<<<<'' \<Longrightarrow>
   parse_loop (pre @ g @ rest) (length pre) cid acc
     = parse_loop (pre @ g @ rest) (length pre + length g) cid acc"
proof (induction g arbitrary: pre)
  case Nil
  then show ?case by simp
next
  case (Cons x g)
  have "parse_loop ((pre @ [x]) @ g @ rest) (length (pre @ [x])) cid acc
          = parse_loop ((pre @ [x]) @ g @ rest) (length (pre @ [x]) + length g) cid acc"
    using Cons.prems by (intro Cons.IH) simp
  moreover have "parse_loop (pre @ (x # g) @ rest) (length pre) cid acc
          = parse_loop (pre @ (x # g) @ rest) (length pre + 1) cid acc"
    using Cons.prems by (subst parse_loop.simps) (simp add: nth_append)
  ultimately show ?case by simp
qed

lemma parse_loop_end: "length lines \<le> i \<Longrightarrow> parse_loop lines i cid acc = acc"
  by (subst parse_loop.simps) simp

lemma parse_loop_block:
  assumes wf: "wf_block b"
  shows "parse_loop (pre @ render_block b @ rest) (length pre) cid acc
           = parse_loop (pre @ render_block b @ rest) (length pre + length (render_block b))
               (cid + 1) (acc @ [region_of (length pre) cid b])"
proof -
  let ?lines = "pre @ render_block b @ rest"
  let ?tl = "[start_marker b] @ local_lines b @ base_rendered b
                      @ [middle_marker b] @ remote_lines b @ [end_marker b] @ rest"
  have lines: "?lines = pre @ gap_lines b @ ?tl" by (simp add: render_block_def)
  have gap: "\<forall>l \<in> set (gap_lines b). \<not> startswith l ''<<<<<<<''"
    and st: "startswith (start_marker b) ''<<<<<<<''"
    using wf by (auto simp: wf_block_def)
  have "parse_loop ?lines (length pre) cid acc
          = parse_loop ?lines (length pre + length (gap_lines b)) cid acc"
    unfolding lines using gap by (rule parse_loop_skip)
  also have "\<dots> = parse_loop ?lines (length pre + length (render_block b) - 1 + 1)
               (cid + 1) (acc @ [region_of (length pre) cid b])"
  proof -
    have at: "?lines ! (length pre + length (gap_lines b)) = start_marker b"
      "length pre + length (gap_lines b) < length ?lines"
      by (auto simp: render_block_def nth_append)
    show ?thesis
      by (subst parse_loop.simps) (simp only: at st parse_block_render [OF wf] if_True split_conv option.case)
  qed
  also have "length pre + length (render_block b) - 1 + 1 = length pre + length (render_block b)"
    by (simp add: render_block_def)
  finally show ?thesis .
qed

lemma parse_loop_render:
  "wf_doc bs trailer \<Longrightarrow>
   parse_loop (pre @ render_doc bs trailer) (length pre) cid acc
     = acc @ regions_of (length pre) cid bs"
proof (induction bs arbitrary: pre cid acc)
  case Nil
  then have "\<forall>l \<in> set trailer. \<not> startswith l ''<<<<<<<''" by (simp add: wf_doc_def)
  then have "parse_loop (pre @ trailer @ []) (length pre) cid acc
               = parse_loop (pre @ trailer @ []) (length pre + length trailer) cid acc"
    by (rule parse_loop_skip)
  then show ?case by (simp add: render_doc_def parse_loop_end)
next
  case (Cons b bs)
  then have wfb: "wf_block b" and wfd: "wf_doc bs trailer" by (auto simp: wf_doc_def)
  have doc: "pre @ render_doc (b # bs) trailer = pre @ render_block b @ render_doc bs trailer"
    "pre @ render_doc (b # bs) trailer = (pre @ render_block b) @ render_doc bs trailer"
    by (simp_all add: render_doc_def)
  have "parse_loop (pre @ render_doc (b # bs) trailer) (length pre) cid acc
          = parse_loop (pre @ render_doc (b # bs) trailer) (length pre + length (render_block b))
               (cid + 1) (acc @ [region_of (length pre) cid b])"
    unfolding doc(1) using wfb by (rule parse_loop_block)
  also have "\<dots> = (acc @ [region_of (length pre) cid b])
                     @ regions_of (length (pre @ render_block b)) (cid + 1) bs"
    unfolding doc(2) using Cons.IH [OF wfd, of "pre @ render_block b"] by simp
  finally show ?case by simp
qed

lemma length_regions_of: "length (regions_of off cid bs) = length bs"
  by (induction bs arbitrary: off cid) auto

lemma conflict_id_regions_of: "map conflict_id (regions_of off cid bs) = map (\<lambda>k. cid + int k) [0..<length bs]"
proof (induction bs arbitrary: off cid)
  case Nil
  then show ?case by simp
next
  case (Cons b bs)
  have "map (\<lambda>k. cid + int k) [0..<length (b # bs)]
          = cid # map (\<lambda>k. cid + 1 + int k) [0..<length bs]"
    by (simp add: upt_conv_Cons map_Suc_upt [symmetric] del: upt_Suc)
  then show ?case using Cons.IH [of "off + length (render_block b)" "cid + 1"]
    by (simp add: region_of_def Let_def new_conflict_def)
qed



lemma scan_until_props:
  "scan_until stops lines i acc = (j, r) \<Longrightarrow>
     i \<le> j \<and> r = acc @ take (j - i) (drop i lines) \<and>
     (j < length lines \<longrightarrow> (\<exists>p \<in> set stops. startswith (lines ! j) p)) \<and>
     (i \<le> length lines \<longrightarrow> j \<le> length lines)"
proof (induction stops lines i acc arbitrary: j r rule: scan_until.induct)
  case (1 stops lines i acc)
  show ?case
  proof (cases "i < length lines \<and> \<not> (\<exists>p \<in> set stops. startswith (lines ! i) p)")
    case True
    then have step: "scan_until stops lines (i + 1) (acc @ [lines ! i]) = (j, r)"
      using "1.prems" by (subst (asm) scan_until.simps) simp
    from "1.IH" [OF True step]
    have ih: "i + 1 \<le> j" "r = (acc @ [lines ! i]) @ take (j - (i + 1)) (drop (i + 1) lines)"
      "j < length lines \<longrightarrow> (\<exists>p \<in> set stops. startswith (lines ! j) p)"
      "i + 1 \<le> length lines \<longrightarrow> j \<le> length lines"
      by simp_all
    have "take (j - i) (drop i lines) = lines ! i # take (j - (i + 1)) (drop (i + 1) lines)"
    proof -
      have "drop i lines = lines ! i # drop (i + 1) lines"
        using True by (simp add: Cons_nth_drop_Suc)
      moreover have "j - i = Suc (j - (i + 1))" using ih(1) by simp
      ultimately show ?thesis by simp
    qed
    with ih True show ?thesis by simp
  next
    case False
    then have "scan_until stops lines i acc = (i, acc)"
      by (subst scan_until.simps) (simp only: False if_False)
    with "1.prems" have "j = i" "r = acc" by simp_all
    with False show ?thesis by auto
  qed
qed

lemma parse_block_Some:
  assumes pb: "parse_block lines i cid = (i', Some c)" and i: "i < length lines"
    and st: "startswith (lines ! i) ''<<<<<<<''"
  shows "region_ok lines c" and "start c = int i" and "end_idx c = int i'" and "conflict_id c = cid"
proof -
  obtain i1 lc where s1: "scan_until [''|||||||'', ''=======''] lines (i + 1) [] = (i1, lc)"
    by fastforce
  obtain i2 bc where s2: "(if i1 < length lines \<and> startswith (lines ! i1) ''|||||||''
              then scan_until [''=======''] lines (i1 + 1) [] else (i1, [])) = (i2, bc)"
    by fastforce
  obtain i3 rc where s3: "scan_until [''>>>>>>>''] lines (i2 + 1) [] = (i3, rc)"
    by fastforce
  from scan_until_props [OF s1] i
  have p1: "i + 1 \<le> i1" "lc = take (i1 - (i + 1)) (drop (i + 1) lines)" "i1 \<le> length lines"
    by simp_all
  have len_lc: "length lc = i1 - (i + 1)" using p1 by simp
  have p2: "i1 \<le> i2" "i1 = i2 \<or> (startswith (lines ! i1) ''|||||||'' \<and> i1 < i2)"
  proof -
    show "i1 \<le> i2" using s2 scan_until_props [of "[''=======''] " lines "i1 + 1" "[]" i2 bc]
      by (auto split: if_splits)
    show "i1 = i2 \<or> (startswith (lines ! i1) ''|||||||'' \<and> i1 < i2)"
      using s2 scan_until_props [of "[''=======''] " lines "i1 + 1" "[]" i2 bc]
      by (auto split: if_splits)
  qed
  from pb have rest: "i2 < length lines" "startswith (lines ! i2) ''======='' "
    "i3 < length lines" "startswith (lines ! i3) ''>>>>>>>''" "i' = i3"
    "c = new_conflict (int i) (int i2) (int i3) bc lc rc cid"
    unfolding parse_block_def Let_def s1 split_conv s2 s3
    by (auto split: if_splits)
  from scan_until_props [OF s3] have p3: "i2 + 1 \<le> i3" by simp
  show "start c = int i" "end_idx c = int i'" "conflict_id c = cid"
    using rest by (simp_all add: new_conflict_def)
  show "region_ok lines c"
    unfolding region_ok_def Let_def
    using rest p1(1) p2 p3 st len_lc by (auto simp: new_conflict_def)
qed

lemma region_ok_order: "region_ok lines c \<Longrightarrow> start c < end_idx c"
  by (simp add: region_ok_def)

lemma parse_loop_invariant:
  "\<forall>c \<in> set acc. region_ok lines c \<and> end_idx c < int i \<Longrightarrow> sorted_wrt before acc \<Longrightarrow>
   (\<forall>c \<in> set (parse_loop lines i cid acc). region_ok lines c) \<and>
   sorted_wrt before (parse_loop lines i cid acc)"
proof (induction lines i cid acc rule: parse_loop.induct)
  case (1 lines i cid conflicts)
  show ?case
  proof (cases "i < length lines")
    case False
    then show ?thesis using "1.prems" by (subst (1 2) parse_loop.simps) simp
  next
    case inb: True
    show ?thesis
    proof (cases "startswith (lines ! i) ''<<<<<<<''")
      case False
      have "\<forall>c \<in> set conflicts. region_ok lines c \<and> end_idx c < int (i + 1)"
        using "1.prems"(1) by auto
      from "1.IH"(3) [OF inb False this "1.prems"(2)] inb False
      show ?thesis by (subst (1 2) parse_loop.simps) simp
    next
      case st: True
      obtain i' r where pb: "parse_block lines i cid = (i', r)" by fastforce
      have gt: "i < i'" using parse_block_ge [of i lines cid] pb by simp
      show ?thesis
      proof (cases r)
        case None
        have "\<forall>c \<in> set conflicts. region_ok lines c \<and> end_idx c < int (i' + 1)"
          using "1.prems"(1) gt by auto
        from "1.IH"(1) [OF inb st pb [symmetric] None this "1.prems"(2)] inb st pb None
        show ?thesis by (subst (1 2) parse_loop.simps) simp
      next
        case (Some c)
        note facts = parse_block_Some [OF pb [unfolded Some] inb st]
        have a: "\<forall>d \<in> set (conflicts @ [c]). region_ok lines d \<and> end_idx d < int (i' + 1)"
          using "1.prems"(1) gt facts by auto
        have b: "sorted_wrt before (conflicts @ [c])"
        proof -
          have "before x c" if "x \<in> set conflicts" for x
          proof -
            from that "1.prems"(1) have "region_ok lines x" "end_idx x < int i" by auto
            with region_ok_order [of lines x] facts(2) show ?thesis by (simp add: before_def)
          qed
          with "1.prems"(2) show ?thesis by (simp add: sorted_wrt_append)
        qed
        from "1.IH"(2) [OF inb st pb [symmetric] Some a b] inb st pb Some
        show ?thesis by (subst (1 2) parse_loop.simps) simp
      qed
    qed
  qed
qed

lemma parse_loop_no_region:
  "(\<forall>l \<in> set lines. \<not> startswith l ''>>>>>>>'') \<or> (\<forall>l \<in> set lines. \<not> startswith l ''======='') \<Longrightarrow>
   parse_loop lines i cid acc = acc"
proof (induction lines i cid acc rule: parse_loop.induct)
  case (1 lines i cid conflicts)
  show ?case
  proof (cases "i < length lines")
    case False
    then show ?thesis by (subst parse_loop.simps) simp
  next
    case inb: True
    show ?thesis
    proof (cases "startswith (lines ! i) ''<<<<<<<''")
      case False
      from "1.IH"(3) [OF inb False "1.prems"] inb False
      show ?thesis by (subst parse_loop.simps) simp
    next
      case st: True
      obtain i' r where pb: "parse_block lines i cid = (i', r)" by fastforce
      have "r = None"
      proof (cases r)
        case (Some c)
        from parse_block_Some(1) [OF pb [unfolded Some] inb st]
        have "startswith (lines ! nat (middle c)) ''======='' " "startswith (lines ! nat (end_idx c)) ''>>>>>>>''"
          "nat (middle c) < length lines" "nat (end_idx c) < length lines"
          by (auto simp: region_ok_def)
        with "1.prems" show ?thesis by (metis nth_mem)
      qed simp
      from "1.IH"(1) [OF inb st pb [symmetric] this "1.prems"] inb st pb this
      show ?thesis by (subst parse_loop.simps) simp
    qed
  qed
qed

lemma regions_of_nth:
  "k < length bs \<Longrightarrow>
   regions_of off cid bs ! k
     = region_of (off + length (concat (map render_block (take k bs)))) (cid + int k) (bs ! k)"
proof (induction bs arbitrary: off cid k)
  case Nil
  then show ?case by simp
next
  case (Cons b bs)
  show ?case
  proof (cases k)
    case 0
    then show ?thesis by simp
  next
    case (Suc k')
    with Cons.prems have "k' < length bs" by simp
    from Cons.IH [OF this, of "off + length (render_block b)" "cid + 1"] Suc
    show ?thesis by (simp add: add.assoc)
  qed
qed

lemma region_of_points:
  assumes "lines = pre @ render_block b @ rest" and "r = region_of (length pre) cid b"
  shows "lines ! nat (start r) = start_marker b" and "lines ! nat (middle r) = middle_marker b"
    and "lines ! nat (end_idx r) = end_marker b" and "local_content r = local_lines b"
    and "remote_content r = remote_lines b" and "base_content r = base_lines b"
    and "conflict_id r = cid"
  using assms
  by (simp_all add: region_of_def Let_def new_conflict_def render_block_def nth_append nat_add_distrib)

lemma render_doc_split:
  assumes "k < length bs"
  shows "render_doc bs trailer
          = concat (map render_block (take k bs)) @ render_block (bs ! k)
              @ (concat (map render_block (drop (Suc k) bs)) @ trailer)"
proof -
  have "bs = take k bs @ bs ! k # drop (Suc k) bs" using assms by (rule id_take_nth_drop)
  then have "concat (map render_block bs)
      = concat (map render_block (take k bs @ bs ! k # drop (Suc k) bs))" by simp
  then show ?thesis by (simp add: render_doc_def)
qed

lemma scan_until_no_stop:
  "scan_until stops lines i acc = (j, r) \<Longrightarrow>
     \<forall>l \<in> set (take (j - i) (drop i lines)). \<not> (\<exists>p \<in> set stops. startswith l p)"
proof (induction stops lines i acc arbitrary: j r rule: scan_until.induct)
  case (1 stops lines i acc)
  show ?case
  proof (cases "i < length lines \<and> \<not> (\<exists>p \<in> set stops. startswith (lines ! i) p)")
    case True
    then have step: "scan_until stops lines (i + 1) (acc @ [lines ! i]) = (j, r)"
      using "1.prems" by (subst (asm) scan_until.simps) simp
    from "1.IH" [OF True step]
    have ih: "\<forall>l \<in> set (take (j - (i + 1)) (drop (i + 1) lines)).
                \<not> (\<exists>p \<in> set stops. startswith l p)" .
    have ge: "i + 1 \<le> j" using scan_until_props [OF step] by simp
    have "take (j - i) (drop i lines) = lines ! i # take (j - (i + 1)) (drop (i + 1) lines)"
    proof -
      have "drop i lines = lines ! i # drop (i + 1) lines"
        using True by (simp add: Cons_nth_drop_Suc)
      moreover have "j - i = Suc (j - (i + 1))" using ge by simp
      ultimately show ?thesis by simp
    qed
    with ih True show ?thesis by simp
  next
    case False
    then have "scan_until stops lines i acc = (i, acc)"
      by (subst scan_until.simps) (simp only: False if_False)
    with "1.prems" have "j = i" by simp
    then show ?thesis by simp
  qed
qed

lemma take_drop_split:
  assumes "i \<le> j" and "j \<le> k"
  shows "take (k - i) (drop i xs) = take (j - i) (drop i xs) @ take (k - j) (drop j xs)"
proof -
  have "k - i = (j - i) + (k - j)" using assms by simp
  then have "take (k - i) (drop i xs)
      = take (j - i) (drop i xs) @ take (k - j) (drop (j - i) (drop i xs))"
    by (simp only: take_add)
  moreover have "drop (j - i) (drop i xs) = drop j xs" using assms by simp
  ultimately show ?thesis by simp
qed

lemma parse_block_first_fit:
  assumes pb: "parse_block lines i cid = (i', Some c)" and i: "i < length lines"
  shows "first_fit lines c"
proof -
  obtain i1 lc where s1: "scan_until [''|||||||'', ''=======''] lines (i + 1) [] = (i1, lc)"
    by fastforce
  obtain i2 bc where s2: "(if i1 < length lines \<and> startswith (lines ! i1) ''|||||||''
              then scan_until [''=======''] lines (i1 + 1) [] else (i1, [])) = (i2, bc)"
    by fastforce
  obtain i3 rc where s3: "scan_until [''>>>>>>>''] lines (i2 + 1) [] = (i3, rc)"
    by fastforce
  from scan_until_props [OF s1] i
  have p1: "i + 1 \<le> i1" "lc = take (i1 - (i + 1)) (drop (i + 1) lines)" "i1 \<le> length lines"
    by simp_all
  have len_lc: "length lc = i1 - (i + 1)" using p1 by simp
  have n1: "\<forall>l \<in> set lc. \<not> startswith l ''|||||||'' \<and> \<not> startswith l ''======='' "
    using scan_until_no_stop [OF s1] p1(2) by simp
  from pb have rest: "i2 < length lines" "startswith (lines ! i2) ''======='' "
    "i3 < length lines" "startswith (lines ! i3) ''>>>>>>>''" "i' = i3"
    "c = new_conflict (int i) (int i2) (int i3) bc lc rc cid"
    unfolding parse_block_def Let_def s1 split_conv s2 s3
    by (auto split: if_splits)
  from scan_until_props [OF s3]
  have p3: "i2 + 1 \<le> i3" "rc = take (i3 - (i2 + 1)) (drop (i2 + 1) lines)" by simp_all
  have n3: "\<forall>l \<in> set rc. \<not> startswith l ''>>>>>>>''"
    using scan_until_no_stop [OF s3] p3(2) by simp
  have between: "(take (i2 - (i + 1)) (drop (i + 1) lines) = lc \<or>
          take (i2 - (i + 1)) (drop (i + 1) lines) = lc @ [lines ! (i + 1 + length lc)] @ bc) \<and>
        (\<forall>l \<in> set (take (i2 - (i + 1)) (drop (i + 1) lines)). \<not> startswith l ''======='')"
  proof (cases "i1 < length lines \<and> startswith (lines ! i1) ''|||||||''")
    case False
    have "i2 = i1" using s2 unfolding if_not_P [OF False] by simp
    then show ?thesis using p1(2) n1 by simp
  next
    case True
    then have sc: "scan_until [''=======''] lines (i1 + 1) [] = (i2, bc)" using s2 by simp
    from scan_until_props [OF sc]
    have p2: "i1 + 1 \<le> i2" "bc = take (i2 - (i1 + 1)) (drop (i1 + 1) lines)" by simp_all
    have n2: "\<forall>l \<in> set bc. \<not> startswith l ''======='' "
      using scan_until_no_stop [OF sc] p2(2) by simp
    have "take (i2 - (i + 1)) (drop (i + 1) lines)
            = take (i1 - (i + 1)) (drop (i + 1) lines) @ take (i2 - i1) (drop i1 lines)"
      using p1(1) p2(1) by (intro take_drop_split) simp_all
    moreover have "take (i2 - i1) (drop i1 lines) = lines ! i1 # bc"
    proof -
      have "drop i1 lines = lines ! i1 # drop (i1 + 1) lines"
        using True by (simp add: Cons_nth_drop_Suc)
      moreover have "i2 - i1 = Suc (i2 - (i1 + 1))" using p2(1) by simp
      ultimately show ?thesis using p2(2) by simp
    qed
    moreover have "i + 1 + length lc = i1" using len_lc p1(1) by simp
    ultimately have eq: "take (i2 - (i + 1)) (drop (i + 1) lines)
        = lc @ [lines ! (i + 1 + length lc)] @ bc"
      using p1(2) by simp
    have "\<not> startswith (lines ! i1) ''======='' " using True marker_excl by blast
    with eq n1 n2 \<open>i + 1 + length lc = i1\<close> show ?thesis by auto
  qed
  have idx: "nat (int i2 - int i) - Suc 0 = i2 - Suc i" "nat (int i3 - int i2) - Suc 0 = i3 - Suc i2"
    by simp_all
  show ?thesis
    unfolding first_fit_def Let_def rest(6)
    using between n1 n3 p3(2)
    by (simp add: new_conflict_def idx list_all_iff)
qed

lemma parse_loop_mem:
  "c \<in> set (parse_loop lines i cid acc) \<Longrightarrow>
   c \<in> set acc \<or>
   (\<exists>j cid' i'. j < length lines \<and> startswith (lines ! j) ''<<<<<<<'' \<and>
                 parse_block lines j cid' = (i', Some c))"
proof (induction lines i cid acc rule: parse_loop.induct)
  case (1 lines i cid conflicts)
  show ?case
  proof (cases "i < length lines")
    case False
    then show ?thesis using "1.prems" by (subst (asm) parse_loop.simps) simp
  next
    case inb: True
    show ?thesis
    proof (cases "startswith (lines ! i) ''<<<<<<<''")
      case False
      have "c \<in> set (parse_loop lines (i + 1) cid conflicts)"
        using "1.prems" inb False by (subst (asm) parse_loop.simps) simp
      from "1.IH"(3) [OF inb False this] show ?thesis .
    next
      case st: True
      obtain i' r where pb: "parse_block lines i cid = (i', r)" by fastforce
      show ?thesis
      proof (cases r)
        case None
        have "c \<in> set (parse_loop lines (i' + 1) cid conflicts)"
          using "1.prems" inb st pb None by (subst (asm) parse_loop.simps) simp
        from "1.IH"(1) [OF inb st pb [symmetric] None this] show ?thesis .
      next
        case (Some d)
        have "c \<in> set (parse_loop lines (i' + 1) (cid + 1) (conflicts @ [d]))"
          using "1.prems" inb st pb Some by (subst (asm) parse_loop.simps) simp
        from "1.IH"(2) [OF inb st pb [symmetric] Some this]
        show ?thesis using inb st pb Some by auto
      qed
    qed
  qed
qed

lemma parse_loop_no_region_from:
  "(\<forall>k. i \<le> k \<and> k < length lines \<longrightarrow> \<not> startswith (lines ! k) ''>>>>>>>'') \<or>
   (\<forall>k. i \<le> k \<and> k < length lines \<longrightarrow> \<not> startswith (lines ! k) ''======='') \<Longrightarrow>
   parse_loop lines i cid acc = acc"
proof (induction lines i cid acc rule: parse_loop.induct)
  case (1 lines i cid conflicts)
  show ?case
  proof (cases "i < length lines")
    case False
    then show ?thesis by (subst parse_loop.simps) simp
  next
    case inb: True
    show ?thesis
    proof (cases "startswith (lines ! i) ''<<<<<<<''")
      case False
      have "(\<forall>k. i + 1 \<le> k \<and> k < length lines \<longrightarrow> \<not> startswith (lines ! k) ''>>>>>>>'') \<or>
            (\<forall>k. i + 1 \<le> k \<and> k < length lines \<longrightarrow> \<not> startswith (lines ! k) ''======='')"
        using "1.prems" by auto
      from "1.IH"(3) [OF inb False this] inb False
      show ?thesis by (subst parse_loop.simps) simp
    next
      case st: True
      obtain i' r where pb: "parse_block lines i cid = (i', r)" by fastforce
      have gt: "i < i'" using parse_block_ge [of i lines cid] pb by simp
      have "r = None"
      proof (cases r)
        case (Some c)
        note f = parse_block_Some [OF pb [unfolded Some] inb st]
        from f(1) have ok: "startswith (lines ! nat (middle c)) ''======='' "
          "startswith (lines ! nat (end_idx c)) ''>>>>>>>''"
          "start c < middle c" "middle c < end_idx c" "end_idx c < int (length lines)"
          by (auto simp: region_ok_def)
        have "i \<le> nat (middle c)" "nat (middle c) < length lines"
          "i \<le> nat (end_idx c)" "nat (end_idx c) < length lines"
          using ok f(2) by auto
        with "1.prems" ok(1,2) show ?thesis by blast
      qed simp
      have "(\<forall>k. i' + 1 \<le> k \<and> k < length lines \<longrightarrow> \<not> startswith (lines ! k) ''>>>>>>>'') \<or>
            (\<forall>k. i' + 1 \<le> k \<and> k < length lines \<longrightarrow> \<not> startswith (lines ! k) ''======='')"
        using "1.prems" gt by auto
      from "1.IH"(1) [OF inb st pb [symmetric] \<open>r = None\<close> this] inb st pb \<open>r = None\<close>
      show ?thesis by (subst parse_loop.simps) simp
    qed
  qed
qed

lemma parse_loop_blocks:
  "\<forall>b \<in> set bs. wf_block b \<Longrightarrow>
   parse_loop (pre @ concat (map render_block bs) @ rest) (length pre) cid acc
     = parse_loop (pre @ concat (map render_block bs) @ rest)
         (length pre + length (concat (map render_block bs))) (cid + int (length bs))
         (acc @ regions_of (length pre) cid bs)"
proof (induction bs arbitrary: pre cid acc)
  case Nil
  then show ?case by simp
next
  case (Cons b bs)
  then have wfb: "wf_block b" and wfs: "\<forall>b \<in> set bs. wf_block b" by simp_all
  let ?lines = "pre @ concat (map render_block (b # bs)) @ rest"
  have l1: "?lines = pre @ render_block b @ (concat (map render_block bs) @ rest)" by simp
  have l2: "?lines = (pre @ render_block b) @ concat (map render_block bs) @ rest" by simp
  have "parse_loop ?lines (length pre) cid acc
          = parse_loop ?lines (length pre + length (render_block b)) (cid + 1)
              (acc @ [region_of (length pre) cid b])"
    unfolding l1 using wfb by (rule parse_loop_block)
  also have "\<dots> = parse_loop ?lines
         (length (pre @ render_block b) + length (concat (map render_block bs)))
         (cid + 1 + int (length bs))
         ((acc @ [region_of (length pre) cid b])
            @ regions_of (length (pre @ render_block b)) (cid + 1) bs)"
    unfolding l2
    using Cons.IH [OF wfs, of "pre @ render_block b" "cid + 1" "acc @ [region_of (length pre) cid b]"]
    by simp
  finally show ?case by (simp add: add.assoc)
qed

section \<open>Properties of the parser\<close>

text \<open>
  Claim C2. Let the lines of a text be a well-formed document of \<open>N\<close> conflict blocks.
  Then \<open>parse_conflict_markers\<close> returns exactly \<open>N\<close> regions, in the order of the
  blocks; the region at position \<open>k\<close> has \<open>conflict_id\<close> \<open>k\<close>, its \<open>start\<close>, \<open>middle\<close>
  and \<open>end\<close> are the indices of the three marker lines of block \<open>k\<close>, and its local,
  remote and base contents are the lines of the block between the markers. A text in
  which no line starts with the start prefix yields the empty list. The parser has no
  failing branch. A sequence that is not terminated yields no region: after well-formed
  blocks, lines among which none starts with the middle prefix, or none with the end
  prefix, add nothing to the regions of the blocks. Every region that is reported is
  paired first-fit: its \<open>middle\<close> is the first line after its start marker with the
  middle prefix and its \<open>end\<close> the first line after that with the end prefix, and the
  lines in between are its contents, marker lines among them included.
\<close>

theorem parse_conflict_markers_regions:
  "(wf_doc bs trailer \<and> splitlines txt = render_doc bs trailer \<longrightarrow>
      length (parse_conflict_markers txt) = length bs \<and>
      sorted_wrt before (parse_conflict_markers txt) \<and>
      (\<forall>k < length bs.
         let r = parse_conflict_markers txt ! k; b = bs ! k
         in conflict_id r = int k \<and>
            r = region_of (length (concat (map render_block (take k bs)))) (int k) b \<and>
            splitlines txt ! nat (start r) = start_marker b \<and>
            splitlines txt ! nat (middle r) = middle_marker b \<and>
            splitlines txt ! nat (end_idx r) = end_marker b \<and>
            local_content r = local_lines b \<and>
            remote_content r = remote_lines b \<and>
            base_content r = base_lines b)) \<and>
   ((\<forall>l \<in> set (splitlines txt). \<not> startswith l ''<<<<<<<'') \<longrightarrow>
      parse_conflict_markers txt = []) \<and>
   ((\<forall>l \<in> set (splitlines txt). \<not> startswith l ''======='') \<longrightarrow>
      parse_conflict_markers txt = []) \<and>
   ((\<forall>l \<in> set (splitlines txt). \<not> startswith l ''>>>>>>>'') \<longrightarrow>
      parse_conflict_markers txt = []) \<and>
   ((\<forall>b \<in> set bs. wf_block b) \<and> splitlines txt = render_doc bs trailer \<and>
    ((\<forall>l \<in> set trailer. \<not> startswith l ''======='') \<or>
     (\<forall>l \<in> set trailer. \<not> startswith l ''>>>>>>>'')) \<longrightarrow>
      parse_conflict_markers txt = regions_of 0 0 bs) \<and>
   (\<forall>c \<in> set (parse_conflict_markers txt).
      region_ok (splitlines txt) c \<and> first_fit (splitlines txt) c)"
proof (intro conjI impI)
  assume h: "wf_doc bs trailer \<and> splitlines txt = render_doc bs trailer"
  then have wf: "wf_doc bs trailer" and doc: "splitlines txt = render_doc bs trailer" by simp_all
  have eq: "parse_conflict_markers txt = regions_of 0 0 bs"
    using parse_loop_render [OF wf, of "[]" 0 "[]"] by (simp add: parse_conflict_markers_def doc)
  show "length (parse_conflict_markers txt) = length bs"
    by (simp add: eq length_regions_of)
  show "sorted_wrt before (parse_conflict_markers txt)"
    using parse_loop_invariant [of "[]" "splitlines txt" 0 0]
    by (simp add: parse_conflict_markers_def)
  show "\<forall>k < length bs.
         let r = parse_conflict_markers txt ! k; b = bs ! k
         in conflict_id r = int k \<and>
            r = region_of (length (concat (map render_block (take k bs)))) (int k) b \<and>
            splitlines txt ! nat (start r) = start_marker b \<and>
            splitlines txt ! nat (middle r) = middle_marker b \<and>
            splitlines txt ! nat (end_idx r) = end_marker b \<and>
            local_content r = local_lines b \<and>
            remote_content r = remote_lines b \<and>
            base_content r = base_lines b"
  proof (intro allI impI)
    fix k assume k: "k < length bs"
    let ?pre = "concat (map render_block (take k bs))"
    let ?r = "region_of (length ?pre) (int k) (bs ! k)"
    have r: "parse_conflict_markers txt ! k = ?r"
      using regions_of_nth [OF k, of 0 0] by (simp add: eq)
    have lines: "splitlines txt
        = ?pre @ render_block (bs ! k) @ (concat (map render_block (drop (Suc k) bs)) @ trailer)"
      unfolding doc using k by (rule render_doc_split)
    note pts = region_of_points [OF lines refl, of "int k"]
    show "let r = parse_conflict_markers txt ! k; b = bs ! k
         in conflict_id r = int k \<and>
            r = region_of (length (concat (map render_block (take k bs)))) (int k) b \<and>
            splitlines txt ! nat (start r) = start_marker b \<and>
            splitlines txt ! nat (middle r) = middle_marker b \<and>
            splitlines txt ! nat (end_idx r) = end_marker b \<and>
            local_content r = local_lines b \<and>
            remote_content r = remote_lines b \<and>
            base_content r = base_lines b"
      unfolding Let_def r using pts by simp
  qed
next
  assume h: "\<forall>l \<in> set (splitlines txt). \<not> startswith l ''<<<<<<<''"
  then have "wf_doc [] (splitlines txt)" by (simp add: wf_doc_def)
  from parse_loop_render [OF this, of "[]" 0 "[]"]
  show "parse_conflict_markers txt = []"
    by (simp add: parse_conflict_markers_def render_doc_def)
next
  assume "\<forall>l \<in> set (splitlines txt). \<not> startswith l ''======='' "
  then show "parse_conflict_markers txt = []"
    unfolding parse_conflict_markers_def by (intro parse_loop_no_region) simp
next
  assume "\<forall>l \<in> set (splitlines txt). \<not> startswith l ''>>>>>>>''"
  then show "parse_conflict_markers txt = []"
    unfolding parse_conflict_markers_def by (intro parse_loop_no_region) simp
next
  assume h: "(\<forall>b \<in> set bs. wf_block b) \<and> splitlines txt = render_doc bs trailer \<and>
    ((\<forall>l \<in> set trailer. \<not> startswith l ''======='') \<or>
     (\<forall>l \<in> set trailer. \<not> startswith l ''>>>>>>>''))"
  then have wf: "\<forall>b \<in> set bs. wf_block b" and doc: "splitlines txt = render_doc bs trailer"
    and tr: "(\<forall>l \<in> set trailer. \<not> startswith l ''======='') \<or>
             (\<forall>l \<in> set trailer. \<not> startswith l ''>>>>>>>'')"
    by simp_all
  let ?blocks = "concat (map render_block bs)"
  let ?lines = "[] @ ?blocks @ trailer"
  have at: "?lines ! k = trailer ! (k - length ?blocks)" "k - length ?blocks < length trailer"
    if "length ?blocks \<le> k" "k < length ?lines" for k
    using that by (simp_all add: nth_append)
  have none: "(\<forall>k. length ?blocks \<le> k \<and> k < length ?lines \<longrightarrow> \<not> startswith (?lines ! k) ''>>>>>>>'') \<or>
     (\<forall>k. length ?blocks \<le> k \<and> k < length ?lines \<longrightarrow> \<not> startswith (?lines ! k) ''======='')"
    using tr at by (metis nth_mem)
  have "parse_loop ?lines (length ([] :: string list)) 0 []
          = parse_loop ?lines (length ([] :: string list) + length ?blocks) (0 + int (length bs))
              ([] @ regions_of (length ([] :: string list)) 0 bs)"
    using wf by (rule parse_loop_blocks)
  also have "\<dots> = [] @ regions_of (length ([] :: string list)) 0 bs"
    using none by (intro parse_loop_no_region_from) simp
  finally show "parse_conflict_markers txt = regions_of 0 0 bs"
    by (simp add: parse_conflict_markers_def doc render_doc_def)
next
  show "\<forall>c \<in> set (parse_conflict_markers txt).
      region_ok (splitlines txt) c \<and> first_fit (splitlines txt) c"
  proof
    fix c assume c: "c \<in> set (parse_conflict_markers txt)"
    have ok: "region_ok (splitlines txt) c"
      using parse_loop_invariant [of "[]" "splitlines txt" 0 0] c
      by (simp add: parse_conflict_markers_def)
    from c parse_loop_mem [of c "splitlines txt" 0 0 "[]"]
    obtain j cid' i' where j: "j < length (splitlines txt)"
      and pb: "parse_block (splitlines txt) j cid' = (i', Some c)"
      by (auto simp: parse_conflict_markers_def)
    from parse_block_first_fit [OF pb j] ok
    show "region_ok (splitlines txt) c \<and> first_fit (splitlines txt) c" by simp
  qed
qed

theorem parse_conflict_markers_regions_witness:
  "wf_doc example_blocks [''z''] \<and> splitlines example_text = render_doc example_blocks [''z''] \<and>
   length (parse_conflict_markers example_text) = 2 \<and>
   map conflict_id (parse_conflict_markers example_text) = [0, 1] \<and>
   map start (parse_conflict_markers example_text) = [1, 7] \<and>
   map middle (parse_conflict_markers example_text) = [3, 10] \<and>
   map end_idx (parse_conflict_markers example_text) = [5, 13] \<and>
   map local_content (parse_conflict_markers example_text) = [[''a''], []] \<and>
   map base_content (parse_conflict_markers example_text) = [[], [''q'']] \<and>
   map remote_content (parse_conflict_markers example_text) = [[''b''], [''r'', ''s'']] \<and>
   list_all (\<lambda>l. \<not> startswith l ''<<<<<<<'') (splitlines ''plain text'') \<and>
   parse_conflict_markers ''plain text'' = [] \<and>
   list_all (\<lambda>l. \<not> startswith l ''======='')
     (splitlines (join_str [CHR 0x0A] [''<<<<<<< HEAD'', ''a'', ''>>>>>>> branch''])) \<and>
   parse_conflict_markers (join_str [CHR 0x0A] [''<<<<<<< HEAD'', ''a'', ''>>>>>>> branch'']) = [] \<and>
   list_all (\<lambda>l. \<not> startswith l ''>>>>>>>'')
     (splitlines (join_str [CHR 0x0A] [''<<<<<<< HEAD'', ''a'', ''======='', ''b''])) \<and>
   parse_conflict_markers (join_str [CHR 0x0A] [''<<<<<<< HEAD'', ''a'', ''======='', ''b'']) = [] \<and>
   list_all wf_block unterminated_blocks \<and>
   splitlines unterminated_text
     = render_doc unterminated_blocks [''<<<<<<< B'', ''c''] \<and>
   list_all (\<lambda>l. \<not> startswith l ''======='') [''<<<<<<< B'', ''c''] \<and>
   map start (parse_conflict_markers unterminated_text) = [0] \<and>
   map end_idx (parse_conflict_markers unterminated_text) = [4] \<and>
   list_all (first_fit (splitlines example_text)) (parse_conflict_markers example_text) \<and>
   list_all (first_fit (splitlines malformed_text)) (parse_conflict_markers malformed_text)"
proof -
  have h1: "wf_doc example_blocks [''z''] \<and> splitlines example_text = render_doc example_blocks [''z'']"
    by code_simp
  have h2: "list_all (\<lambda>l. \<not> startswith l ''<<<<<<<'') (splitlines ''plain text'')" by code_simp
  have h3: "list_all (\<lambda>l. \<not> startswith l ''======='')
     (splitlines (join_str [CHR 0x0A] [''<<<<<<< HEAD'', ''a'', ''>>>>>>> branch'']))" by code_simp
  have h4: "list_all (\<lambda>l. \<not> startswith l ''>>>>>>>'')
     (splitlines (join_str [CHR 0x0A] [''<<<<<<< HEAD'', ''a'', ''======='', ''b'']))" by code_simp
  note t1 = parse_conflict_markers_regions [of example_blocks "[''z'']" example_text]
  have len: "length (parse_conflict_markers example_text) = length example_blocks"
    and nth: "\<forall>k < length example_blocks.
         let r = parse_conflict_markers example_text ! k; b = example_blocks ! k
         in conflict_id r = int k \<and>
            r = region_of (length (concat (map render_block (take k example_blocks)))) (int k) b \<and>
            splitlines example_text ! nat (start r) = start_marker b \<and>
            splitlines example_text ! nat (middle r) = middle_marker b \<and>
            splitlines example_text ! nat (end_idx r) = end_marker b \<and>
            local_content r = local_lines b \<and>
            remote_content r = remote_lines b \<and>
            base_content r = base_lines b"
    using t1 h1 by blast+
  have l2: "length example_blocks = 2" by (simp add: example_blocks_def)
  from nth l2 have r0: "parse_conflict_markers example_text ! 0
        = region_of (length (concat (map render_block (take 0 example_blocks)))) (int 0) (example_blocks ! 0)"
    and r1: "parse_conflict_markers example_text ! 1
        = region_of (length (concat (map render_block (take 1 example_blocks)))) (int 1) (example_blocks ! 1)"
    by (simp_all add: Let_def)
  have v0: "region_of (length (concat (map render_block (take 0 example_blocks)))) (int 0) (example_blocks ! 0)
      = new_conflict 1 3 5 [] [''a''] [''b''] 0" by code_simp
  have v1: "region_of (length (concat (map render_block (take 1 example_blocks)))) (int 1) (example_blocks ! 1)
      = new_conflict 7 10 13 [''q''] [] [''r'', ''s''] 1" by code_simp
  have list: "parse_conflict_markers example_text
      = [new_conflict 1 3 5 [] [''a''] [''b''] 0, new_conflict 7 10 13 [''q''] [] [''r'', ''s''] 1]"
    using len l2 r0 r1 v0 v1
    by (intro nth_equalityI) (auto simp: less_Suc_eq numeral_2_eq_2)
  have p2: "parse_conflict_markers ''plain text'' = []"
    using parse_conflict_markers_regions [of _ _ "''plain text''"] h2
    by (simp add: list_all_iff)
  have p3: "parse_conflict_markers (join_str [CHR 0x0A] [''<<<<<<< HEAD'', ''a'', ''>>>>>>> branch'']) = []"
    using parse_conflict_markers_regions
      [of _ _ "join_str [CHR 0x0A] [''<<<<<<< HEAD'', ''a'', ''>>>>>>> branch'']"] h3
    by (simp add: list_all_iff)
  have p4: "parse_conflict_markers (join_str [CHR 0x0A] [''<<<<<<< HEAD'', ''a'', ''======='', ''b'']) = []"
    using parse_conflict_markers_regions
      [of _ _ "join_str [CHR 0x0A] [''<<<<<<< HEAD'', ''a'', ''======='', ''b'']"] h4
    by (simp add: list_all_iff)
  have h5: "list_all wf_block unterminated_blocks \<and>
     splitlines unterminated_text = render_doc unterminated_blocks [''<<<<<<< B'', ''c''] \<and>
     list_all (\<lambda>l. \<not> startswith l ''======='') [''<<<<<<< B'', ''c'']"
    by code_simp
  have p5: "parse_conflict_markers unterminated_text = regions_of 0 0 unterminated_blocks"
    using parse_conflict_markers_regions
      [of unterminated_blocks "[''<<<<<<< B'', ''c'']" unterminated_text] h5
    by (simp add: list_all_iff)
  have v5: "map start (regions_of 0 0 unterminated_blocks) = [0]"
    "map end_idx (regions_of 0 0 unterminated_blocks) = [4]"
    by code_simp+
  have p6: "list_all (first_fit (splitlines example_text)) (parse_conflict_markers example_text)"
    "list_all (first_fit (splitlines malformed_text)) (parse_conflict_markers malformed_text)"
    using parse_conflict_markers_regions [of _ _ example_text]
      parse_conflict_markers_regions [of _ _ malformed_text]
    by (simp_all add: list_all_iff)
  have first: "wf_doc example_blocks [''z''] \<and> splitlines example_text = render_doc example_blocks [''z''] \<and>
   length (parse_conflict_markers example_text) = 2 \<and>
   map conflict_id (parse_conflict_markers example_text) = [0, 1] \<and>
   map start (parse_conflict_markers example_text) = [1, 7] \<and>
   map middle (parse_conflict_markers example_text) = [3, 10] \<and>
   map end_idx (parse_conflict_markers example_text) = [5, 13] \<and>
   map local_content (parse_conflict_markers example_text) = [[''a''], []] \<and>
   map base_content (parse_conflict_markers example_text) = [[], [''q'']] \<and>
   map remote_content (parse_conflict_markers example_text) = [[''b''], [''r'', ''s'']]"
    using h1 by (simp add: list new_conflict_def)
  show ?thesis
    using first h2 h3 h4 p2 p3 p4 h5 p6 by (simp add: p5 v5)
qed

text \<open>
  A malformed sequence is therefore not always left out. In \<open>malformed_text\<close> the start
  marker of line 0 is followed by an end marker before any middle separator; the parser
  reports one region that starts at line 0 and takes the end marker of line 2 and the
  start marker of the well-formed block at line 3 as local lines.
\<close>

theorem parse_conflict_markers_malformed_counterexample:
  "map start (parse_conflict_markers malformed_text) = [0] \<and>
   map middle (parse_conflict_markers malformed_text) = [5] \<and>
   map end_idx (parse_conflict_markers malformed_text) = [7] \<and>
   map local_content (parse_conflict_markers malformed_text)
     = [[''a'', ''>>>>>>> A'', ''<<<<<<< B'', ''b'']] \<and>
   \<not> canonical_at (splitlines malformed_text) 0 \<and>
   canonical_at (splitlines malformed_text) 3"
  by code_simp

text \<open>
  Claim C8. Every list of regions that \<open>parse_conflict_markers\<close> returns satisfies the
  region invariants: each region has \<open>start < middle < end\<close> within the text, with a
  base separator, where there is one, strictly between \<open>start\<close> and \<open>middle\<close>, and
  of two regions of the list the earlier one starts before the later one and ends before
  the later one starts.
\<close>

theorem parse_conflict_markers_invariants:
  "(\<forall>c \<in> set (parse_conflict_markers txt). region_ok (splitlines txt) c) \<and>
   sorted_wrt before (parse_conflict_markers txt)"
  using parse_loop_invariant [of "[]" "splitlines txt" 0 0]
  by (simp add: parse_conflict_markers_def)

theorem parse_conflict_markers_invariants_witness:
  "length (parse_conflict_markers example_text) = 2 \<and>
   list_all (region_ok (splitlines example_text)) (parse_conflict_markers example_text) \<and>
   sorted_wrt before (parse_conflict_markers example_text)"
proof -
  have "length (parse_conflict_markers example_text) = 2" by code_simp
  then show ?thesis
    using parse_conflict_markers_invariants [of example_text] by (simp add: list_all_iff)
qed

section \<open>The resolution engine\<close>

lemma example_app_conflicts:
  "current_conflicts example_app
     = [new_conflict 1 3 5 [] [''a''] [''b''] 0, new_conflict 7 10 13 [''q''] [] [''r'', ''s''] 1]"
  by code_simp

lemma example_app_local_text: "local_text example_app = example_text"
  by code_simp

lemma example_app_selection: "selected_conflict_index example_app = 0"
  by code_simp

lemma current_conflicts_resolve_single:
  "current_conflicts (resolve_single_conflict ud i resolution s)
     = current_conflicts
         (update_working_copy_with_resolution i
            (if resolution = ''local'' then local_content (current_conflicts s ! i)
             else if resolution = ''remote'' then remote_content (current_conflicts s ! i)
             else base_content (current_conflicts s ! i))
            (s\<lparr>current_conflicts := (current_conflicts s)
                 [i := (current_conflicts s ! i)
                    \<lparr>is_resolved := True, resolved_with := Some resolution,
                     resolved_lines := Some
                       (if resolution = ''local'' then local_content (current_conflicts s ! i)
                        else if resolution = ''remote'' then remote_content (current_conflicts s ! i)
                        else base_content (current_conflicts s ! i)),
                     rejected_lines := Some
                       (if resolution = ''local'' then remote_content (current_conflicts s ! i)
                        else if resolution = ''remote'' then local_content (current_conflicts s ! i)
                        else local_content (current_conflicts s ! i)
                               @ remote_content (current_conflicts s ! i))\<rparr>]\<rparr>))"
  by (simp add: resolve_single_conflict_def Let_def split_def update_status_def
        show_rejection_preview_of_def update_working_copy_with_resolution_def)

lemma nth_update_working_copy:
  "j < length (current_conflicts s) \<Longrightarrow>
   current_conflicts (update_working_copy_with_resolution i chosen s) ! j
     = (let c = current_conflicts s ! i; other = current_conflicts s ! j;
            removed = (end_idx c - start c + 1) - int (length chosen)
        in if conflict_id other \<noteq> conflict_id c \<and> start other > end_idx c
           then other\<lparr>start := start other - removed, middle := middle other - removed,
                       end_idx := end_idx other - removed\<rparr>
           else other)"
  by (simp add: update_working_copy_with_resolution_def Let_def)

lemma local_text_update_working_copy:
  "local_text (update_working_copy_with_resolution i chosen s)
     = join_str [CHR 0x0A]
         (slice_to (splitlines (local_text s)) (start (current_conflicts s ! i)) @ chosen
            @ slice_from (splitlines (local_text s)) (end_idx (current_conflicts s ! i) + 1))"
  by (simp add: update_working_copy_with_resolution_def Let_def)

lemma distinct_ids_neq:
  "distinct (map conflict_id cs) \<Longrightarrow> i < length cs \<Longrightarrow> j < length cs \<Longrightarrow> j \<noteq> i \<Longrightarrow>
   conflict_id (cs ! j) \<noteq> conflict_id (cs ! i)"
  by (metis distinct_conv_nth length_map nth_map)

text \<open>
  Claim C1. Resolving the region at position \<open>i\<close> splices the chosen lines over the
  lines \<open>start..end\<close> of that region. In a list of regions with distinct identifiers,
  every other region \<open>j\<close> whose \<open>start\<close> lies after the \<open>end\<close> of region \<open>i\<close> has
  its \<open>start\<close>, \<open>middle\<close> and \<open>end\<close> decreased by exactly
  \<open>(end - start + 1) - len(chosen)\<close>, a number that may be negative, and nothing else
  of it changes; every region that starts before region \<open>i\<close> (whose \<open>start\<close> is not
  after its \<open>end\<close>) is unchanged.
\<close>

theorem rebase_after_resolution:
  "i < length (current_conflicts s) \<and> j < length (current_conflicts s) \<and>
   distinct (map conflict_id (current_conflicts s)) \<longrightarrow>
     (let c = current_conflicts s ! i;
          other = current_conflicts s ! j;
          lines = splitlines (local_text s);
          s' = update_working_copy_with_resolution i chosen s;
          removed = (end_idx c - start c + 1) - int (length chosen)
      in local_text s' = join_str [CHR 0x0A]
                           (slice_to lines (start c) @ chosen @ slice_from lines (end_idx c + 1)) \<and>
         (j \<noteq> i \<and> start other > end_idx c \<longrightarrow>
            current_conflicts s' ! j
              = other\<lparr>start := start other - removed, middle := middle other - removed,
                       end_idx := end_idx other - removed\<rparr>) \<and>
         (start other < start c \<and> start c \<le> end_idx c \<longrightarrow>
            current_conflicts s' ! j = other))"
proof (intro impI)
  assume h: "i < length (current_conflicts s) \<and> j < length (current_conflicts s) \<and>
   distinct (map conflict_id (current_conflicts s))"
  then have i: "i < length (current_conflicts s)" and j: "j < length (current_conflicts s)"
    and d: "distinct (map conflict_id (current_conflicts s))" by simp_all
  have ne: "j \<noteq> i \<Longrightarrow> conflict_id (current_conflicts s ! j) \<noteq> conflict_id (current_conflicts s ! i)"
    using distinct_ids_neq [OF d i j] by simp
  show "let c = current_conflicts s ! i;
          other = current_conflicts s ! j;
          lines = splitlines (local_text s);
          s' = update_working_copy_with_resolution i chosen s;
          removed = (end_idx c - start c + 1) - int (length chosen)
      in local_text s' = join_str [CHR 0x0A]
                           (slice_to lines (start c) @ chosen @ slice_from lines (end_idx c + 1)) \<and>
         (j \<noteq> i \<and> start other > end_idx c \<longrightarrow>
            current_conflicts s' ! j
              = other\<lparr>start := start other - removed, middle := middle other - removed,
                       end_idx := end_idx other - removed\<rparr>) \<and>
         (start other < start c \<and> start c \<le> end_idx c \<longrightarrow>
            current_conflicts s' ! j = other)"
    unfolding Let_def
    using ne by (auto simp: nth_update_working_copy [OF j] local_text_update_working_copy Let_def)
qed

theorem rebase_after_resolution_witness:
  "map (\<lambda>c. (start c, middle c, end_idx c)) (current_conflicts example_app)
     = [(1, 3, 5), (7, 10, 13)] \<and>
   current_conflicts (update_working_copy_with_resolution 0 [''a''] example_app) ! 1
     = (current_conflicts example_app ! 1)\<lparr>start := 3, middle := 6, end_idx := 9\<rparr> \<and>
   current_conflicts (update_working_copy_with_resolution 1 [''q''] example_app) ! 0
     = current_conflicts example_app ! 0 \<and>
   local_text (update_working_copy_with_resolution 0 [''a''] example_app)
     = join_str [CHR 0x0A]
         [''x'', ''a'', ''y'', ''<<<<<<< ours'', ''||||||| base'', ''q'', ''======='', ''r'', ''s'',
          ''>>>>>>> theirs'', ''z'']"
proof -
  have hyp: "(0::nat) < length (current_conflicts example_app) \<and>
             (1::nat) < length (current_conflicts example_app) \<and>
             distinct (map conflict_id (current_conflicts example_app))"
    by (simp add: example_app_conflicts new_conflict_def)
  have lines: "splitlines example_text
      = [''x'', ''<<<<<<< HEAD'', ''a'', ''======='', ''b'', ''>>>>>>> branch'', ''y'',
      ''<<<<<<< ours'', ''||||||| base'', ''q'', ''======='', ''r'', ''s'', ''>>>>>>> theirs'', ''z'']"
    by code_simp
  from rebase_after_resolution [of 0 example_app 1 "[''a'']"] hyp
  have a: "current_conflicts (update_working_copy_with_resolution 0 [''a''] example_app) ! 1
     = (current_conflicts example_app ! 1)\<lparr>start := 3, middle := 6, end_idx := 9\<rparr>"
    and c: "local_text (update_working_copy_with_resolution 0 [''a''] example_app)
     = join_str [CHR 0x0A]
         [''x'', ''a'', ''y'', ''<<<<<<< ours'', ''||||||| base'', ''q'', ''======='', ''r'', ''s'',
          ''>>>>>>> theirs'', ''z'']"
    by (simp_all add: Let_def example_app_conflicts new_conflict_def example_app_local_text
          lines slice_to_def slice_from_def)
  from rebase_after_resolution [of 1 example_app 0 "[''q'']"] hyp
  have b: "current_conflicts (update_working_copy_with_resolution 1 [''q''] example_app) ! 0
     = current_conflicts example_app ! 0"
    by (simp add: Let_def example_app_conflicts new_conflict_def)
  show ?thesis using a b c by (simp add: example_app_conflicts new_conflict_def)
qed

text \<open>
  Claim C6. Resolving a region with \<open>local\<close> records the remote lines as rejected, with
  \<open>remote\<close> the local lines; with \<open>base\<close> the chosen lines are the base lines, which
  may be empty, and the rejected lines are the local lines followed by the remote lines.
  In each case the region is marked resolved with the variant.
\<close>

theorem resolve_single_conflict_lines:
  "i < length (current_conflicts s) \<longrightarrow>
     (let c = current_conflicts s ! i;
          after = (\<lambda>resolution. current_conflicts (resolve_single_conflict ud i resolution s) ! i)
      in resolved_lines (after ''local'') = Some (local_content c) \<and>
         rejected_lines (after ''local'') = Some (remote_content c) \<and>
         resolved_lines (after ''remote'') = Some (remote_content c) \<and>
         rejected_lines (after ''remote'') = Some (local_content c) \<and>
         resolved_lines (after ''base'') = Some (base_content c) \<and>
         rejected_lines (after ''base'') = Some (local_content c @ remote_content c) \<and>
         (\<forall>resolution. is_resolved (after resolution) \<and>
                        resolved_with (after resolution) = Some resolution))"
proof
  assume i: "i < length (current_conflicts s)"
  have nth: "current_conflicts (resolve_single_conflict ud i resolution s) ! i
      = (current_conflicts s ! i)
          \<lparr>is_resolved := True, resolved_with := Some resolution,
           resolved_lines := Some
             (if resolution = ''local'' then local_content (current_conflicts s ! i)
              else if resolution = ''remote'' then remote_content (current_conflicts s ! i)
              else base_content (current_conflicts s ! i)),
           rejected_lines := Some
             (if resolution = ''local'' then remote_content (current_conflicts s ! i)
              else if resolution = ''remote'' then local_content (current_conflicts s ! i)
              else local_content (current_conflicts s ! i)
                     @ remote_content (current_conflicts s ! i))\<rparr>" for resolution
    using i by (simp add: current_conflicts_resolve_single nth_update_working_copy Let_def)
  show "let c = current_conflicts s ! i;
          after = (\<lambda>resolution. current_conflicts (resolve_single_conflict ud i resolution s) ! i)
      in resolved_lines (after ''local'') = Some (local_content c) \<and>
         rejected_lines (after ''local'') = Some (remote_content c) \<and>
         resolved_lines (after ''remote'') = Some (remote_content c) \<and>
         rejected_lines (after ''remote'') = Some (local_content c) \<and>
         resolved_lines (after ''base'') = Some (base_content c) \<and>
         rejected_lines (after ''base'') = Some (local_content c @ remote_content c) \<and>
         (\<forall>resolution. is_resolved (after resolution) \<and>
                        resolved_with (after resolution) = Some resolution)"
    unfolding Let_def nth by simp
qed

theorem resolve_single_conflict_lines_witness:
  "rejected_lines (current_conflicts (resolve_single_conflict example_diff 0 ''local'' example_app) ! 0)
     = Some [''b''] \<and>
   rejected_lines (current_conflicts (resolve_single_conflict example_diff 0 ''remote'' example_app) ! 0)
     = Some [''a''] \<and>
   resolved_lines (current_conflicts (resolve_single_conflict example_diff 1 ''base'' example_app) ! 1)
     = Some [''q''] \<and>
   rejected_lines (current_conflicts (resolve_single_conflict example_diff 1 ''base'' example_app) ! 1)
     = Some [''r'', ''s'']"
proof -
  have h0: "(0::nat) < length (current_conflicts example_app)"
    and h1: "(1::nat) < length (current_conflicts example_app)"
    by (simp_all add: example_app_conflicts)
  from resolve_single_conflict_lines [of 0 example_app example_diff] h0
       resolve_single_conflict_lines [of 1 example_app example_diff] h1
  show ?thesis by (simp add: Let_def example_app_conflicts new_conflict_def)
qed

lemma resolve_single_frame:
  "git_repo (resolve_single_conflict ud i v s) = git_repo s"
  "current_file (resolve_single_conflict ud i v s) = current_file s"
  "original_conflicts (resolve_single_conflict ud i v s) = original_conflicts s"
  "selected_conflict_index (resolve_single_conflict ud i v s) = selected_conflict_index s"
  "original_content (resolve_single_conflict ud i v s) = original_content s"
  "file_versions (resolve_single_conflict ud i v s) = file_versions s"
  "show_rejection_preview (resolve_single_conflict ud i v s) = show_rejection_preview s"
  "base_text (resolve_single_conflict ud i v s) = base_text s"
  "remote_text (resolve_single_conflict ud i v s) = remote_text s"
  "current_file_label (resolve_single_conflict ud i v s) = current_file_label s"
  by (simp_all add: resolve_single_conflict_def Let_def split_def update_status_def
        show_rejection_preview_of_def update_working_copy_with_resolution_def)

lemma load_conflicted_file_success:
  assumes "git_repo s = Some repo" and "get_file_versions e repo f = Inr versions"
    and "read_text e repo f = Inr txt"
  shows "load_conflicted_file e f s
     = s\<lparr>current_file := Some f, current_file_label := f, file_versions := versions,
          original_content := txt, current_conflicts := parse_conflict_markers txt,
          original_conflicts := map backup_conflict (parse_conflict_markers txt),
          base_text := dict_get versions ''base'' ''Not available'',
          local_text := txt,
          remote_text := dict_get versions ''remote'' ''Not available'',
          rejection_preview := ''// Make a choice to see rejected alternative'',
          selected_conflict_index := (if parse_conflict_markers txt \<noteq> [] then 0 else - 1),
          status_text := ''Loaded '' @ f @ '' with ''
             @ str_int (int (length (parse_conflict_markers txt))) @ '' conflicts''\<rparr>"
  using assms by (simp add: load_conflicted_file_def Let_def update_status_def)

lemma revert_conflict_reload:
  assumes "selection_valid s1" and "selected_conflict_index s1 < int (length (original_conflicts s1))"
    and "git_repo s1 = Some repo" and "current_file s1 = Some f"
    and "get_file_versions e repo f = Inr versions" and "read_text e repo f = Inr txt"
  shows "revert_conflict e s1
     = Inr (s1\<lparr>current_file := Some f, current_file_label := f, file_versions := versions,
          original_content := txt, current_conflicts := parse_conflict_markers txt,
          original_conflicts := map backup_conflict (parse_conflict_markers txt),
          base_text := dict_get versions ''base'' ''Not available'',
          local_text := txt,
          remote_text := dict_get versions ''remote'' ''Not available'',
          rejection_preview := ''// Make a choice to see rejected alternative'',
          selected_conflict_index := (if parse_conflict_markers txt \<noteq> [] then 0 else - 1),
          status_text := ''Reverted conflict ''
             @ str_int ((if parse_conflict_markers txt \<noteq> [] then 0 else - 1) + 1)\<rparr>)"
proof -
  let ?s = "s1\<lparr>current_conflicts := (current_conflicts s1)
     [nat (selected_conflict_index s1) :=
        (current_conflicts s1 ! nat (selected_conflict_index s1))
           \<lparr>is_resolved := False, resolved_with := None,
            resolved_lines := None, rejected_lines := None\<rparr>]\<rparr>"
  have "git_repo ?s = Some repo" using assms(3) by simp
  note load = load_conflicted_file_success [OF this assms(5,6)]
  show ?thesis
    using assms(1,2,4)
    by (simp add: revert_conflict_def Let_def load update_status_def)
qed

text \<open>
  Claim C3. \<open>revert_conflict\<close> reloads the file and parses it again; it does not read
  the snapshot \<open>original_content\<close>. Let the application hold a repository and a current
  file that can be read, and let a region be selected for which \<open>original_conflicts\<close>
  has an entry. Then resolving the selected region with any of the three variants and
  reverting it gives as working copy the text that the file holds at the revert, with the
  regions parsed from that text; where the file still holds the snapshot, the working copy
  is the snapshot. When the region is resolved right after loading, reverting gives back
  the loaded application, working copy and regions included; only the status line
  differs.
\<close>

theorem resolve_then_revert_reloads:
  "(git_repo s = Some repo \<and> current_file s = Some f \<and>
    get_file_versions e repo f = Inr versions \<and> read_text e repo f = Inr txt \<and>
    selection_valid s \<and> selected_conflict_index s < int (length (original_conflicts s)) \<longrightarrow>
      (\<forall>s1 \<in> {accept_local_conflict ud s, accept_remote_conflict ud s, accept_base_conflict ud s}.
         \<exists>s2. revert_conflict e s1 = Inr s2 \<and>
              local_text s2 = txt \<and> original_content s2 = txt \<and>
              current_conflicts s2 = parse_conflict_markers txt \<and>
              original_conflicts s2 = map backup_conflict (parse_conflict_markers txt) \<and>
              (txt = original_content s \<longrightarrow> local_text s2 = original_content s))) \<and>
   (git_repo s0 = Some repo \<and> get_file_versions e repo f = Inr versions \<and>
    read_text e repo f = Inr txt \<and> parse_conflict_markers txt \<noteq> [] \<and>
    selected_conflict_index s = int k \<and> k < length (parse_conflict_markers txt) \<and>
    s = (load_conflicted_file e f s0)\<lparr>selected_conflict_index := int k\<rparr> \<longrightarrow>
      local_text s = txt \<and> original_content s = txt \<and>
      (\<forall>s1 \<in> {accept_local_conflict ud s, accept_remote_conflict ud s, accept_base_conflict ud s}.
         revert_conflict e s1
           = Inr ((load_conflicted_file e f s0)\<lparr>status_text := ''Reverted conflict 1''\<rparr>)))"
proof (rule conjI)
  show "git_repo s = Some repo \<and> current_file s = Some f \<and>
    get_file_versions e repo f = Inr versions \<and> read_text e repo f = Inr txt \<and>
    selection_valid s \<and> selected_conflict_index s < int (length (original_conflicts s)) \<longrightarrow>
      (\<forall>s1 \<in> {accept_local_conflict ud s, accept_remote_conflict ud s, accept_base_conflict ud s}.
         \<exists>s2. revert_conflict e s1 = Inr s2 \<and>
              local_text s2 = txt \<and> original_content s2 = txt \<and>
              current_conflicts s2 = parse_conflict_markers txt \<and>
              original_conflicts s2 = map backup_conflict (parse_conflict_markers txt) \<and>
              (txt = original_content s \<longrightarrow> local_text s2 = original_content s))"
  proof (rule impI)
    assume h: "git_repo s = Some repo \<and> current_file s = Some f \<and>
      get_file_versions e repo f = Inr versions \<and> read_text e repo f = Inr txt \<and>
      selection_valid s \<and> selected_conflict_index s < int (length (original_conflicts s))"
    have "\<exists>s2. revert_conflict e (resolve_single_conflict ud (nat (selected_conflict_index s)) v s) = Inr s2 \<and>
              local_text s2 = txt \<and> original_content s2 = txt \<and>
              current_conflicts s2 = parse_conflict_markers txt \<and>
              original_conflicts s2 = map backup_conflict (parse_conflict_markers txt) \<and>
              (txt = original_content s \<longrightarrow> local_text s2 = original_content s)"
      for v
    proof -
      let ?s1 = "resolve_single_conflict ud (nat (selected_conflict_index s)) v s"
      have "selection_valid ?s1"
        using h by (simp add: selection_valid_def resolve_single_frame length_resolve_single_conflict)
      moreover have "selected_conflict_index ?s1 < int (length (original_conflicts ?s1))"
        using h by (simp add: resolve_single_frame)
      moreover have "git_repo ?s1 = Some repo" "current_file ?s1 = Some f"
        using h by (simp_all add: resolve_single_frame)
      ultimately show ?thesis
        using h revert_conflict_reload [of ?s1 repo f e versions "txt"] by simp
    qed
    then show "\<forall>s1 \<in> {accept_local_conflict ud s, accept_remote_conflict ud s, accept_base_conflict ud s}.
         \<exists>s2. revert_conflict e s1 = Inr s2 \<and>
              local_text s2 = txt \<and> original_content s2 = txt \<and>
              current_conflicts s2 = parse_conflict_markers txt \<and>
              original_conflicts s2 = map backup_conflict (parse_conflict_markers txt) \<and>
              (txt = original_content s \<longrightarrow> local_text s2 = original_content s)"
      using h by (simp add: accept_local_conflict_def accept_remote_conflict_def accept_base_conflict_def)
  qed
next
  show "git_repo s0 = Some repo \<and> get_file_versions e repo f = Inr versions \<and>
    read_text e repo f = Inr txt \<and> parse_conflict_markers txt \<noteq> [] \<and>
    selected_conflict_index s = int k \<and> k < length (parse_conflict_markers txt) \<and>
    s = (load_conflicted_file e f s0)\<lparr>selected_conflict_index := int k\<rparr> \<longrightarrow>
      local_text s = txt \<and> original_content s = txt \<and>
      (\<forall>s1 \<in> {accept_local_conflict ud s, accept_remote_conflict ud s, accept_base_conflict ud s}.
         revert_conflict e s1
           = Inr ((load_conflicted_file e f s0)\<lparr>status_text := ''Reverted conflict 1''\<rparr>))"
  proof (rule impI)
    assume h: "git_repo s0 = Some repo \<and> get_file_versions e repo f = Inr versions \<and>
      read_text e repo f = Inr txt \<and> parse_conflict_markers txt \<noteq> [] \<and>
      selected_conflict_index s = int k \<and> k < length (parse_conflict_markers txt) \<and>
      s = (load_conflicted_file e f s0)\<lparr>selected_conflict_index := int k\<rparr>"
    then have g: "git_repo s0 = Some repo" and fv: "get_file_versions e repo f = Inr versions"
      and rt: "read_text e repo f = Inr txt" and ne: "parse_conflict_markers txt \<noteq> []"
      and k: "k < length (parse_conflict_markers txt)"
      and s: "s = (load_conflicted_file e f s0)\<lparr>selected_conflict_index := int k\<rparr>" by simp_all
    note load = load_conflicted_file_success [OF g fv rt]
    have sv: "selection_valid s" using s k by (simp add: selection_valid_def load)
    have txts: "local_text s = txt" "original_content s = txt" using s load by simp_all
    have "revert_conflict e (resolve_single_conflict ud (nat (selected_conflict_index s)) v s)
             = Inr ((load_conflicted_file e f s0)\<lparr>status_text := ''Reverted conflict 1''\<rparr>)" for v
    proof -
      let ?s1 = "resolve_single_conflict ud (nat (selected_conflict_index s)) v s"
      have a: "selection_valid ?s1"
        using sv by (simp add: selection_valid_def resolve_single_frame length_resolve_single_conflict)
      have b: "selected_conflict_index ?s1 < int (length (original_conflicts ?s1))"
        using s k by (simp add: resolve_single_frame load)
      have c: "git_repo ?s1 = Some repo" "current_file ?s1 = Some f"
        using s g by (simp_all add: resolve_single_frame load)
      have one: "str_int 1 = ''1''" by code_simp
      have frame: "file_versions ?s1 = versions" "show_rejection_preview ?s1 = show_rejection_preview s0"
        "base_text ?s1 = dict_get versions ''base'' ''Not available''"
        "remote_text ?s1 = dict_get versions ''remote'' ''Not available''"
        "current_file_label ?s1 = f" "git_repo ?s1 = git_repo s0"  "GitMergeApp.more ?s1 = GitMergeApp.more s0"
        using s
        by (simp_all add: resolve_single_conflict_def Let_def split_def update_status_def
              show_rejection_preview_of_def update_working_copy_with_resolution_def load)
      show ?thesis
        unfolding revert_conflict_reload [OF a b c fv rt] load
        using ne frame by (intro arg_cong [where f = Inr] GitMergeApp.equality) (simp_all add: one)
    qed
    then have "\<forall>s1 \<in> {accept_local_conflict ud s, accept_remote_conflict ud s, accept_base_conflict ud s}.
           revert_conflict e s1
             = Inr ((load_conflicted_file e f s0)\<lparr>status_text := ''Reverted conflict 1''\<rparr>)"
      using sv by (simp add: accept_local_conflict_def accept_remote_conflict_def accept_base_conflict_def)
    with txts show "local_text s = txt \<and> original_content s = txt \<and>
      (\<forall>s1 \<in> {accept_local_conflict ud s, accept_remote_conflict ud s, accept_base_conflict ud s}.
         revert_conflict e s1
           = Inr ((load_conflicted_file e f s0)\<lparr>status_text := ''Reverted conflict 1''\<rparr>))"
      by simp
  qed
qed

theorem resolve_then_revert_reloads_witness:
  "local_text example_app = example_text \<and>
   original_content example_app = example_text \<and>
   local_text (accept_local_conflict example_diff example_app)
     = join_str [CHR 0x0A]
         [''x'', ''a'', ''y'', ''<<<<<<< ours'', ''||||||| base'', ''q'', ''======='', ''r'', ''s'',
          ''>>>>>>> theirs'', ''z''] \<and>
   revert_conflict example_env (accept_local_conflict example_diff example_app)
     = Inr (example_app\<lparr>status_text := ''Reverted conflict 1''\<rparr>) \<and>
   revert_conflict example_env (accept_remote_conflict example_diff example_app)
     = Inr (example_app\<lparr>status_text := ''Reverted conflict 1''\<rparr>) \<and>
   revert_conflict example_env (accept_base_conflict example_diff example_app)
     = Inr (example_app\<lparr>status_text := ''Reverted conflict 1''\<rparr>) \<and>
   (\<exists>s2. revert_conflict example_env (accept_local_conflict example_diff example_app) = Inr s2 \<and>
         local_text s2 = example_text \<and> current_conflicts s2 = parse_conflict_markers example_text)"
proof -
  have env: "get_file_versions example_env ''repo'' ''f.txt'' = Inr Map.empty"
    "read_text example_env ''repo'' ''f.txt'' = Inr example_text"
    by (simp_all add: example_env_def)
  have oc: "original_content example_app = example_text" by code_simp
  have h1a: "git_repo example_app = Some ''repo'' \<and> current_file example_app = Some ''f.txt'' \<and>
    selection_valid example_app \<and>
    selected_conflict_index example_app < int (length (original_conflicts example_app))"
    by code_simp
  have h1: "git_repo example_app = Some ''repo'' \<and> current_file example_app = Some ''f.txt'' \<and>
    get_file_versions example_env ''repo'' ''f.txt'' = Inr Map.empty \<and>
    read_text example_env ''repo'' ''f.txt'' = Inr example_text \<and>
    selection_valid example_app \<and>
    selected_conflict_index example_app < int (length (original_conflicts example_app))"
    using h1a env by simp
  have h2a: "git_repo initial_app = Some ''repo'' \<and>
    parse_conflict_markers example_text \<noteq> [] \<and>
    selected_conflict_index example_app = int 0 \<and> 0 < length (parse_conflict_markers example_text)"
    by code_simp
  have h2: "git_repo initial_app = Some ''repo'' \<and>
    get_file_versions example_env ''repo'' ''f.txt'' = Inr Map.empty \<and>
    read_text example_env ''repo'' ''f.txt'' = Inr example_text \<and>
    parse_conflict_markers example_text \<noteq> [] \<and>
    selected_conflict_index example_app = int 0 \<and> 0 < length (parse_conflict_markers example_text)"
    using h2a env by simp
  have h3: "example_app = (load_conflicted_file example_env ''f.txt'' initial_app)
                            \<lparr>selected_conflict_index := int 0\<rparr>"
    using example_app_selection by (simp add: example_app_def [symmetric])
  note t = resolve_then_revert_reloads
      [of example_app "''repo''" "''f.txt''" example_env Map.empty example_text example_diff
          initial_app 0]
  from t h1 have a: "\<exists>s2. revert_conflict example_env (accept_local_conflict example_diff example_app) = Inr s2 \<and>
         local_text s2 = example_text \<and> current_conflicts s2 = parse_conflict_markers example_text"
    by blast
  from t h2 h3 have b: "local_text example_app = example_text"
    and c: "\<forall>s1 \<in> {accept_local_conflict example_diff example_app,
                    accept_remote_conflict example_diff example_app,
                    accept_base_conflict example_diff example_app}.
         revert_conflict example_env s1
           = Inr ((load_conflicted_file example_env ''f.txt'' initial_app)
                    \<lparr>status_text := ''Reverted conflict 1''\<rparr>)"
    by blast+
  have d: "local_text (accept_local_conflict example_diff example_app)
     = join_str [CHR 0x0A]
         [''x'', ''a'', ''y'', ''<<<<<<< ours'', ''||||||| base'', ''q'', ''======='', ''r'', ''s'',
          ''>>>>>>> theirs'', ''z'']"
    by code_simp
  show ?thesis using a b c d oc by (simp add: example_app_def [symmetric])
qed

text \<open>
  The file need not hold the snapshot: \<open>mark_resolved\<close> writes the working copy to it.
  In the three-block document, after the first region was accepted and the file marked
  resolved, and the second region accepted, resolving the third region and reverting it
  gives the text written by \<open>mark_resolved\<close>, which is neither the snapshot taken at
  load nor the working copy before the third region was resolved.
\<close>

theorem resolve_then_revert_snapshot_counterexample:
  "original_content third_selected_app = example_text3 \<and>
   selected_conflict_index third_selected_app = 2 \<and>
   local_text third_selected_app
     = join_str [CHR 0x0A]
         [''al'', ''bl'', ''<<<<<<< C'', ''cl'', ''======='', ''cr'', ''>>>>>>> C''] \<and>
   local_text (accept_remote_conflict example_diff third_selected_app)
     = join_str [CHR 0x0A] [''al'', ''bl'', ''cr''] \<and>
   map_sum id local_text
       (revert_conflict marked_env (accept_remote_conflict example_diff third_selected_app))
     = Inr (join_str [CHR 0x0A]
              [''al'', ''<<<<<<< B'', ''bl'', ''======='', ''>>>>>>> B'',
               ''<<<<<<< C'', ''cl'', ''======='', ''cr'', ''>>>>>>> C'']) \<and>
   map_sum id local_text
       (revert_conflict marked_env (accept_remote_conflict example_diff third_selected_app))
     \<noteq> Inr (original_content third_selected_app) \<and>
   map_sum id local_text
       (revert_conflict marked_env (accept_remote_conflict example_diff third_selected_app))
     \<noteq> Inr (local_text third_selected_app)"
  by code_simp

lemma resolve_single_core:
  "current_conflicts s = current_conflicts t \<Longrightarrow> local_text s = local_text t \<Longrightarrow>
   current_conflicts (resolve_single_conflict ud i v s)
     = current_conflicts (resolve_single_conflict ud i v t) \<and>
   local_text (resolve_single_conflict ud i v s) = local_text (resolve_single_conflict ud i v t)"
  by (simp add: resolve_single_conflict_def Let_def split_def update_status_def
        show_rejection_preview_of_def update_working_copy_with_resolution_def)

lemma is_resolved_resolve_other:
  "j \<noteq> i \<Longrightarrow> j < length (current_conflicts s) \<Longrightarrow>
   is_resolved (current_conflicts (resolve_single_conflict ud i v s) ! j)
     = is_resolved (current_conflicts s ! j)"
  by (simp add: current_conflicts_resolve_single nth_update_working_copy Let_def)

lemma resolve_individually_eq:
  assumes "i < length (current_conflicts t)" and "v \<in> {''local'', ''remote'', ''base''}"
  shows "resolve_individually ud v i t
           = resolve_single_conflict ud i v (t\<lparr>selected_conflict_index := int i\<rparr>)"
  using assms
  by (auto simp: resolve_individually_def Let_def accept_local_conflict_def
        accept_remote_conflict_def accept_base_conflict_def selection_valid_def)

lemma resolve_loop_core:
  "current_conflicts s = current_conflicts t \<Longrightarrow> local_text s = local_text t \<Longrightarrow>
   v \<in> {''local'', ''remote'', ''base''} \<Longrightarrow>
   current_conflicts (resolve_loop ud v i s)
     = current_conflicts
         (fold (resolve_individually ud v)
            (filter (\<lambda>j. \<not> is_resolved (current_conflicts s ! j))
               [i..<length (current_conflicts s)]) t) \<and>
   local_text (resolve_loop ud v i s)
     = local_text
         (fold (resolve_individually ud v)
            (filter (\<lambda>j. \<not> is_resolved (current_conflicts s ! j))
               [i..<length (current_conflicts s)]) t)"
proof (induction ud v i s arbitrary: t rule: resolve_loop.induct)
  case (1 ud v i s)
  let ?n = "length (current_conflicts s)"
  show ?case
  proof (cases "i < ?n")
    case False
    then show ?thesis using "1.prems" by (subst (1 2) resolve_loop.simps) simp
  next
    case inb: True
    have upt: "[i..<?n] = i # [Suc i..<?n]" using inb by (simp add: upt_conv_Cons)
    show ?thesis
    proof (cases "is_resolved (current_conflicts s ! i)")
      case True
      have st: "(if \<not> is_resolved (current_conflicts s ! i)
                 then resolve_single_conflict ud i v s else s) = s"
        using True by simp
      note ih = "1.IH" [OF inb, of t, unfolded st, OF "1.prems"]
      have lhs: "resolve_loop ud v i s = resolve_loop ud v (i + 1) s"
        by (subst resolve_loop.simps) (simp add: inb True)
      have rhs: "filter (\<lambda>j. \<not> is_resolved (current_conflicts s ! j)) [i..<?n]
                   = filter (\<lambda>j. \<not> is_resolved (current_conflicts s ! j)) [i + 1..<?n]"
        using True by (simp add: upt)
      show ?thesis unfolding lhs rhs using ih .
    next
      case False
      let ?s1 = "resolve_single_conflict ud i v s"
      let ?t1 = "resolve_individually ud v i t"
      have t1: "?t1 = resolve_single_conflict ud i v (t\<lparr>selected_conflict_index := int i\<rparr>)"
        using inb "1.prems" by (intro resolve_individually_eq) simp_all
      have core: "current_conflicts ?s1 = current_conflicts ?t1" "local_text ?s1 = local_text ?t1"
        unfolding t1
        using resolve_single_core [of s "t\<lparr>selected_conflict_index := int i\<rparr>" ud i v] "1.prems"
        by simp_all
      have len: "length (current_conflicts ?s1) = ?n" by (rule length_resolve_single_conflict)
      have filt: "filter (\<lambda>j. \<not> is_resolved (current_conflicts ?s1 ! j)) [i + 1..<?n]
                    = filter (\<lambda>j. \<not> is_resolved (current_conflicts s ! j)) [i + 1..<?n]"
        by (rule filter_cong) (auto simp: is_resolved_resolve_other)
      have st: "(if \<not> is_resolved (current_conflicts s ! i)
                 then resolve_single_conflict ud i v s else s) = ?s1"
        using False by simp
      note ih = "1.IH" [OF inb, of ?t1, unfolded st, OF core "1.prems"(3), unfolded len filt]
      have lhs: "resolve_loop ud v i s = resolve_loop ud v (i + 1) ?s1"
        by (subst resolve_loop.simps) (simp add: inb False)
      have rhs: "fold (resolve_individually ud v)
                   (filter (\<lambda>j. \<not> is_resolved (current_conflicts s ! j)) [i..<?n]) t
                 = fold (resolve_individually ud v)
                   (filter (\<lambda>j. \<not> is_resolved (current_conflicts s ! j)) [i + 1..<?n]) ?t1"
        using False by (simp add: upt)
      show ?thesis unfolding lhs rhs using ih .
    qed
  qed
qed

lemma sorted_starts_filter:
  assumes "sorted (map start cs)"
  shows "sorted (map (\<lambda>i. start (cs ! i)) (filter P [0..<length cs]))"
proof -
  have "sorted_wrt (\<lambda>i j. start (cs ! i) \<le> start (cs ! j)) [0..<length cs]"
    using assms by (auto simp: sorted_wrt_iff_nth_less sorted_iff_nth_mono)
  then have "sorted_wrt (\<lambda>i j. start (cs ! i) \<le> start (cs ! j)) (filter P [0..<length cs])"
    by (rule sorted_wrt_filter)
  then show ?thesis by (simp add: sorted_map)
qed

lemma sorted_wrt_before_starts: "sorted_wrt before cs \<Longrightarrow> sorted (map start cs)"
  by (induction cs) (auto simp: before_def)

text \<open>
  Claim C4. \<open>resolve_with_version\<close> resolves exactly the regions that are unresolved,
  in the order of the list: for each of the three variants the working copy and the
  regions it leaves are those of resolving each unresolved region on its own, by
  selecting it and accepting the variant, in list order. The list order is the ascending
  order of \<open>start\<close> where the list is sorted by \<open>start\<close>; there the result is that of
  \<open>resolve_all_spec\<close>, which sorts the unresolved regions by \<open>start\<close>. The list is
  sorted after loading, so on the original document \<open>resolve_with_version\<close> is
  equivalent to resolving each region individually in ascending order.
\<close>

theorem resolve_with_version_list_order:
  "(v \<in> {''local'', ''remote'', ''base''} \<longrightarrow>
      current_conflicts (resolve_with_version ud v s)
        = current_conflicts (resolve_all_in_list_order ud v s) \<and>
      local_text (resolve_with_version ud v s) = local_text (resolve_all_in_list_order ud v s)) \<and>
   (v \<in> {''local'', ''remote'', ''base''} \<and> sorted (map start (current_conflicts s)) \<longrightarrow>
      resolve_all_in_list_order ud v s = resolve_all_spec ud v s \<and>
      current_conflicts (resolve_with_version ud v s)
        = current_conflicts (resolve_all_spec ud v s) \<and>
      local_text (resolve_with_version ud v s) = local_text (resolve_all_spec ud v s)) \<and>
   (v \<in> {''local'', ''remote'', ''base''} \<and> git_repo s0 = Some repo \<and>
    get_file_versions e repo f = Inr versions \<and> read_text e repo f = Inr txt \<and>
    s = load_conflicted_file e f s0 \<longrightarrow>
      sorted (map start (current_conflicts s)) \<and>
      current_conflicts (resolve_with_version ud v s)
        = current_conflicts (resolve_all_spec ud v s) \<and>
      local_text (resolve_with_version ud v s) = local_text (resolve_all_spec ud v s))"
proof -
  have order: "current_conflicts (resolve_with_version ud v s)
        = current_conflicts (resolve_all_in_list_order ud v s) \<and>
      local_text (resolve_with_version ud v s) = local_text (resolve_all_in_list_order ud v s)"
    if v: "v \<in> {''local'', ''remote'', ''base''}" for s
  proof (cases "current_conflicts s = []")
    case True
    then show ?thesis by (simp add: resolve_with_version_def resolve_all_in_list_order_def)
  next
    case False
    then show ?thesis
      using resolve_loop_core [of s s v ud 0] v
      by (simp add: resolve_with_version_def resolve_all_in_list_order_def update_status_def)
  qed
  have spec: "resolve_all_in_list_order ud v s = resolve_all_spec ud v s"
    if srt: "sorted (map start (current_conflicts s))" for s
  proof -
    let ?idx = "filter (\<lambda>i. \<not> is_resolved (current_conflicts s ! i))
                  [0..<length (current_conflicts s)]"
    have "sort_key (\<lambda>i. start (current_conflicts s ! i)) ?idx = ?idx"
      using sorted_starts_filter [OF srt] by (rule sort_key_id_if_sorted)
    then show ?thesis by (simp add: resolve_all_spec_def resolve_all_in_list_order_def)
  qed
  show ?thesis
  proof (intro conjI)
    show "v \<in> {''local'', ''remote'', ''base''} \<longrightarrow>
      current_conflicts (resolve_with_version ud v s)
        = current_conflicts (resolve_all_in_list_order ud v s) \<and>
      local_text (resolve_with_version ud v s) = local_text (resolve_all_in_list_order ud v s)"
      using order [of s] by blast
  next
    show "v \<in> {''local'', ''remote'', ''base''} \<and> sorted (map start (current_conflicts s)) \<longrightarrow>
      resolve_all_in_list_order ud v s = resolve_all_spec ud v s \<and>
      current_conflicts (resolve_with_version ud v s)
        = current_conflicts (resolve_all_spec ud v s) \<and>
      local_text (resolve_with_version ud v s) = local_text (resolve_all_spec ud v s)"
      using order [of s] spec [of s] by auto
  next
    show "v \<in> {''local'', ''remote'', ''base''} \<and> git_repo s0 = Some repo \<and>
      get_file_versions e repo f = Inr versions \<and> read_text e repo f = Inr txt \<and>
      s = load_conflicted_file e f s0 \<longrightarrow>
      sorted (map start (current_conflicts s)) \<and>
      current_conflicts (resolve_with_version ud v s)
        = current_conflicts (resolve_all_spec ud v s) \<and>
      local_text (resolve_with_version ud v s) = local_text (resolve_all_spec ud v s)"
    proof (rule impI)
      assume h: "v \<in> {''local'', ''remote'', ''base''} \<and> git_repo s0 = Some repo \<and>
        get_file_versions e repo f = Inr versions \<and> read_text e repo f = Inr txt \<and>
        s = load_conflicted_file e f s0"
      then have g: "git_repo s0 = Some repo" and fv: "get_file_versions e repo f = Inr versions"
        and rt: "read_text e repo f = Inr txt" and ld: "s = load_conflicted_file e f s0"
        by simp_all
      have "current_conflicts s = parse_conflict_markers txt"
        unfolding ld load_conflicted_file_success [OF g fv rt] by simp
      moreover have "sorted_wrt before (parse_conflict_markers txt)"
        using parse_loop_invariant [of "[]" "splitlines txt" 0 0]
        by (simp add: parse_conflict_markers_def)
      ultimately have srt: "sorted (map start (current_conflicts s))"
        by (simp add: sorted_wrt_before_starts)
      with h show "sorted (map start (current_conflicts s)) \<and>
        current_conflicts (resolve_with_version ud v s)
          = current_conflicts (resolve_all_spec ud v s) \<and>
        local_text (resolve_with_version ud v s) = local_text (resolve_all_spec ud v s)"
        using order [of s] spec [of s] by auto
    qed
  qed
qed

theorem resolve_with_version_list_order_witness:
  "sorted (map start (current_conflicts example_app)) \<and>
   local_text (resolve_all_spec example_diff ''remote'' example_app)
     = join_str [CHR 0x0A] [''x'', ''b'', ''y'', ''r'', ''s'', ''z''] \<and>
   local_text (resolve_with_version example_diff ''remote'' example_app)
     = join_str [CHR 0x0A] [''x'', ''b'', ''y'', ''r'', ''s'', ''z''] \<and>
   map is_resolved (current_conflicts (resolve_with_version example_diff ''remote'' example_app))
     = [True, True] \<and>
   local_text (resolve_with_version example_diff ''base''
                 (accept_local_conflict example_diff example_app))
     = join_str [CHR 0x0A] [''x'', ''a'', ''y'', ''q'', ''z''] \<and>
   local_text (resolve_all_in_list_order example_diff ''local'' twice_resolved_app) = ''cl'' \<and>
   local_text (resolve_with_version example_diff ''local'' twice_resolved_app) = ''cl''"
proof -
  have h: "sorted (map start (current_conflicts example_app))"
    by (simp add: example_app_conflicts new_conflict_def)
  have h': "sorted (map start (current_conflicts (accept_local_conflict example_diff example_app)))"
    by code_simp
  have env: "get_file_versions example_env ''repo'' ''f.txt'' = Inr Map.empty"
    "read_text example_env ''repo'' ''f.txt'' = Inr example_text" "git_repo initial_app = Some ''repo''"
    by (simp_all add: example_env_def initial_app_def)
  have a: "local_text (resolve_all_spec example_diff ''remote'' example_app)
     = join_str [CHR 0x0A] [''x'', ''b'', ''y'', ''r'', ''s'', ''z'']"
    by code_simp
  have b: "map is_resolved (current_conflicts (resolve_all_spec example_diff ''remote'' example_app))
     = [True, True]"
    by code_simp
  have c: "local_text (resolve_all_spec example_diff ''base''
                 (accept_local_conflict example_diff example_app))
     = join_str [CHR 0x0A] [''x'', ''a'', ''y'', ''q'', ''z'']"
    by code_simp
  have d: "local_text (resolve_all_in_list_order example_diff ''local'' twice_resolved_app) = ''cl''"
    by code_simp
  from resolve_with_version_list_order [of "''remote''" example_diff example_app initial_app "''repo''"
       example_env "''f.txt''" Map.empty example_text] h env
  have r1: "current_conflicts (resolve_with_version example_diff ''remote'' example_app)
        = current_conflicts (resolve_all_spec example_diff ''remote'' example_app)"
    "local_text (resolve_with_version example_diff ''remote'' example_app)
        = local_text (resolve_all_spec example_diff ''remote'' example_app)"
    by (simp_all add: example_app_def)
  from resolve_with_version_list_order [of "''base''" example_diff
       "accept_local_conflict example_diff example_app"] h'
  have r2: "local_text (resolve_with_version example_diff ''base''
                 (accept_local_conflict example_diff example_app))
        = local_text (resolve_all_spec example_diff ''base''
                 (accept_local_conflict example_diff example_app))"
    by simp
  from resolve_with_version_list_order [of "''local''" example_diff twice_resolved_app]
  have r3: "local_text (resolve_with_version example_diff ''local'' twice_resolved_app)
        = local_text (resolve_all_in_list_order example_diff ''local'' twice_resolved_app)"
    by simp
  show ?thesis using h a b c d r1 r2 r3 by simp
qed

text \<open>
  The method sorts nothing, and accepting a region a second time can leave the list out
  of order: after \<open>local\<close> and then \<open>base\<close> on the first of three adjacent regions the
  starts are 0, 1, 0, and the two unresolved regions are resolved in list order, with
  another document than in ascending order of \<open>start\<close>.
\<close>

theorem resolve_with_version_order_counterexample:
  "map start (current_conflicts twice_resolved_app) = [0, 1, 0] \<and>
   map is_resolved (current_conflicts twice_resolved_app) = [True, False, False] \<and>
   local_text (resolve_with_version example_diff ''local'' twice_resolved_app) = ''cl'' \<and>
   local_text (resolve_all_spec example_diff ''local'' twice_resolved_app)
     = join_str [CHR 0x0A] [''cl'', ''bl''] \<and>
   local_text (resolve_with_version example_diff ''local'' twice_resolved_app)
     \<noteq> local_text (resolve_all_spec example_diff ''local'' twice_resolved_app)"
  by code_simp

text \<open>
  Claim C9. When the selection does not refer to a region of the current list (it is
  negative or not below the length of the list), each of the three \<open>accept\<close> methods
  and \<open>revert_conflict\<close> returns the application as it was, the document and every
  region included, and \<open>revert_conflict\<close> raises no error.
\<close>

theorem unknown_region_no_op:
  "\<not> selection_valid s \<longrightarrow>
     accept_local_conflict ud s = s \<and> accept_remote_conflict ud s = s \<and>
     accept_base_conflict ud s = s \<and> revert_conflict e s = Inr s"
  by (simp add: accept_local_conflict_def accept_remote_conflict_def accept_base_conflict_def
        revert_conflict_def)

theorem unknown_region_no_op_witness:
  "\<not> selection_valid (example_app\<lparr>selected_conflict_index := 2\<rparr>) \<and>
   accept_local_conflict example_diff (example_app\<lparr>selected_conflict_index := 2\<rparr>)
     = example_app\<lparr>selected_conflict_index := 2\<rparr> \<and>
   accept_remote_conflict example_diff (example_app\<lparr>selected_conflict_index := 2\<rparr>)
     = example_app\<lparr>selected_conflict_index := 2\<rparr> \<and>
   accept_base_conflict example_diff (example_app\<lparr>selected_conflict_index := 2\<rparr>)
     = example_app\<lparr>selected_conflict_index := 2\<rparr> \<and>
   revert_conflict example_env (example_app\<lparr>selected_conflict_index := 2\<rparr>)
     = Inr (example_app\<lparr>selected_conflict_index := 2\<rparr>) \<and>
   \<not> selection_valid initial_app \<and>
   revert_conflict example_env initial_app = Inr initial_app"
proof -
  have h: "\<not> selection_valid (example_app\<lparr>selected_conflict_index := 2\<rparr>)"
    by (simp add: selection_valid_def example_app_conflicts)
  have h': "\<not> selection_valid initial_app"
    by (simp add: selection_valid_def initial_app_def)
  from unknown_region_no_op [of "example_app\<lparr>selected_conflict_index := 2\<rparr>" example_diff example_env] h
       unknown_region_no_op [of initial_app example_diff example_env] h'
  show ?thesis by simp
qed

section \<open>Properties of the rejection preview\<close>

text \<open>
  Claim C10. Whatever the chosen lines are, a call of \<open>create_rejection_preview\<close> with
  an empty list of rejected lines returns the fixed text
  \<open>// No alternative content to show\<close>; the test for an empty rejected list comes
  first, so neither the branch for identical contents nor the diff is reached, also
  when the chosen list is empty too.
\<close>

theorem create_rejection_preview_no_alternative:
  "create_rejection_preview unified_diff chosen_content [] = ''// No alternative content to show''"
  by (simp add: create_rejection_preview_def)

lemma comment_line_eq: "(\<lambda>line. CHR ''/'' # CHR ''/'' # CHR '' '' # line) = (@) ''// ''"
  by (rule ext) simp

lemma create_rejection_preview_identical:
  assumes "rejected \<noteq> []"
  shows "create_rejection_preview ud rejected rejected
           = ''// ===== REJECTED ALTERNATIVE ====='' @ [CHR 0x0A]
               @ ''// (Identical to chosen content)'' @ [CHR 0x0A]
               @ join_str [CHR 0x0A]
                   (map (\<lambda>line. ''// '' @ line) rejected @ [''// ===== END REJECTED ====='']) "
proof -
  obtain x xs where r: "rejected = x # xs" using assms by (cases rejected) auto
  show ?thesis
    unfolding r by (simp add: create_rejection_preview_def Let_def comment_line_eq)
qed

text \<open>
  Claim C5. For two equal lists of lines of which the rejected one is not empty,
  \<open>create_rejection_preview\<close> reports identical contents: its output is the header, the
  note \<open>// (Identical to chosen content)\<close>, the rejected lines as comments and the
  footer. For two empty lists the first test of the function returns the text for no
  alternative instead, which carries no such note.
\<close>

theorem create_rejection_preview_identical_nonempty:
  "rejected \<noteq> [] \<longrightarrow>
     reports_identical (create_rejection_preview unified_diff rejected rejected) \<and>
     create_rejection_preview unified_diff rejected rejected
       = join_str [CHR 0x0A]
           ([''// ===== REJECTED ALTERNATIVE ====='', ''// (Identical to chosen content)'']
              @ map (\<lambda>line. ''// '' @ line) rejected @ [''// ===== END REJECTED ====='']) "
proof
  assume ne: "rejected \<noteq> []"
  have eq: "create_rejection_preview unified_diff rejected rejected
       = join_str [CHR 0x0A]
           ([''// ===== REJECTED ALTERNATIVE ====='', ''// (Identical to chosen content)'']
              @ map (\<lambda>line. ''// '' @ line) rejected @ [''// ===== END REJECTED ====='']) "
    using ne by (simp add: create_rejection_preview_def Let_def comment_line_eq)
  have "create_rejection_preview unified_diff rejected rejected
          = (''// ===== REJECTED ALTERNATIVE ====='' @ [CHR 0x0A] @ ''// '')
              @ ''(Identical to chosen content)''
              @ ([CHR 0x0A] @ join_str [CHR 0x0A]
                   (map (\<lambda>line. ''// '' @ line) rejected @ [''// ===== END REJECTED =====''])) "
    using create_rejection_preview_identical [OF ne, of unified_diff] by simp
  then have "reports_identical (create_rejection_preview unified_diff rejected rejected)"
    unfolding reports_identical_def sublist_def by blast
  with eq show "reports_identical (create_rejection_preview unified_diff rejected rejected) \<and>
     create_rejection_preview unified_diff rejected rejected
       = join_str [CHR 0x0A]
           ([''// ===== REJECTED ALTERNATIVE ====='', ''// (Identical to chosen content)'']
              @ map (\<lambda>line. ''// '' @ line) rejected @ [''// ===== END REJECTED ====='']) "
    by simp
qed

theorem create_rejection_preview_identical_nonempty_witness:
  "[''a'', ''b''] \<noteq> ([] :: string list) \<and>
   reports_identical (create_rejection_preview example_diff [''a'', ''b''] [''a'', ''b'']) \<and>
   create_rejection_preview example_diff [''a'', ''b''] [''a'', ''b'']
     = join_str [CHR 0x0A]
         [''// ===== REJECTED ALTERNATIVE ====='', ''// (Identical to chosen content)'',
          ''// a'', ''// b'', ''// ===== END REJECTED =====''] "
proof -
  have ne: "[''a'', ''b''] \<noteq> ([] :: string list)" by simp
  from create_rejection_preview_identical_nonempty [of "[''a'', ''b'']" example_diff] ne
  have a: "reports_identical (create_rejection_preview example_diff [''a'', ''b''] [''a'', ''b''])"
    and b: "create_rejection_preview example_diff [''a'', ''b''] [''a'', ''b'']
       = join_str [CHR 0x0A]
           ([''// ===== REJECTED ALTERNATIVE ====='', ''// (Identical to chosen content)'']
              @ map (\<lambda>line. ''// '' @ line) [''a'', ''b''] @ [''// ===== END REJECTED ====='']) "
    by blast+
  have c: "[''// ===== REJECTED ALTERNATIVE ====='', ''// (Identical to chosen content)'']
              @ map (\<lambda>line. ''// '' @ line) [''a'', ''b''] @ [''// ===== END REJECTED ====='']
      = [''// ===== REJECTED ALTERNATIVE ====='', ''// (Identical to chosen content)'',
          ''// a'', ''// b'', ''// ===== END REJECTED =====''] "
    by simp
  show ?thesis
  proof (intro conjI)
    show "[''a'', ''b''] \<noteq> ([] :: string list)" by (rule ne)
    show "reports_identical (create_rejection_preview example_diff [''a'', ''b''] [''a'', ''b''])"
      by (rule a)
    show "create_rejection_preview example_diff [''a'', ''b''] [''a'', ''b'']
     = join_str [CHR 0x0A]
         [''// ===== REJECTED ALTERNATIVE ====='', ''// (Identical to chosen content)'',
          ''// a'', ''// b'', ''// ===== END REJECTED =====''] "
      unfolding b c ..
  qed
qed

theorem create_rejection_preview_identical_counterexample:
  "\<not> reports_identical (create_rejection_preview example_diff [] [])"
  by code_simp

section \<open>Properties of the line diff\<close>



end
